theory Spec2Isabelle
  imports Complex_Main "HOL-Library.Word"
begin

section \<open>Multi-band image blending: the model\<close>

text \<open>
  The development embeds the float pipeline of the image processor: the class
  \<open>FloatImage\<close> with \<open>fromCanvas\<close>, \<open>toCanvas\<close> and \<open>toVisualCanvas\<close>, the resampling
  functions \<open>downsampleFloat\<close> and \<open>upsampleFloat\<close>, and the four phases of
  \<open>processPyramidBlending\<close>.

  Conventions of the embedding.
  \<^item> A JavaScript number is a \<open>number\<close>: \<open>NaN\<close> or an exact real \<open>Val x\<close>. The rounding
    of IEEE doubles and of stores into a \<open>Float32Array\<close> is not modelled, and neither
    are the infinities; every sample the pipeline derives from 8-bit data by one
    subtraction is an integer of small magnitude and is exact in both formats.
    The value \<open>undefined\<close> of an out-of-range read turns into \<open>NaN\<close> in arithmetic,
    in \<open>Math.max\<close> and when stored into a typed array, so a read of a typed array
    yields \<open>NaN\<close> out of range.
  \<^item> An \<open>HTMLCanvasElement\<close> is a \<open>canvas\<close>: its width, its height and the RGBA bytes
    that \<open>getImageData\<close> returns for it.
  \<^item> What the browser paints in \<open>drawImage\<close> (scaling, smoothing, the CSS filter
    \<open>blur(2px)\<close>) is not code of the repository. It is a parameter of the model, a
    \<open>rasteriser\<close>, which gives every byte of the destination bitmap; the size of
    the destination is set by the code and is not the rasteriser's to choose.
  \<^item> Exceptions are values: a function that can throw returns \<open>error + 'a\<close>.
    \<open>createImageData\<close> and \<open>getImageData\<close> throw \<open>IndexSizeError\<close> for a zero width
    or height, \<open>drawImage\<close> throws \<open>InvalidStateError\<close> for a source canvas of zero
    area, and a property access on \<open>undefined\<close> throws \<open>TypeError\<close>. The function is
    \<open>async\<close>: an exception is the rejection of the promise it returns. Failures of the
    platform that no argument decides (a tainted canvas, a context that cannot be had)
    are left out.
  \<^item> \<open>levels\<close> is an integer, negative ones included.
\<close>

subsection \<open>Numbers, typed arrays\<close>

datatype number = NaN | Val real

type_synonym byte = "8 word"

datatype error = IndexSizeError | InvalidStateError | TypeError

instantiation number :: "{plus, minus, times}"
begin

fun plus_number :: "number \<Rightarrow> number \<Rightarrow> number" where
  "plus_number (Val x) (Val y) = Val (x + y)"
| "plus_number _ _ = NaN"

fun minus_number :: "number \<Rightarrow> number \<Rightarrow> number" where
  "minus_number (Val x) (Val y) = Val (x - y)"
| "minus_number _ _ = NaN"

fun times_number :: "number \<Rightarrow> number \<Rightarrow> number" where
  "times_number (Val x) (Val y) = Val (x * y)"
| "times_number _ _ = NaN"

instance ..

end

text \<open>The only division of the pipeline: \<open>x / 255.0\<close>.\<close>

fun div255 :: "number \<Rightarrow> number" where
  "div255 (Val x) = Val (x / 255)"
| "div255 NaN = NaN"

text \<open>\<open>Math.max\<close> and \<open>Math.min\<close>: \<open>NaN\<close> if either argument is.\<close>

fun Math_max :: "number \<Rightarrow> number \<Rightarrow> number" where
  "Math_max (Val x) (Val y) = Val (max x y)"
| "Math_max _ _ = NaN"

fun Math_min :: "number \<Rightarrow> number \<Rightarrow> number" where
  "Math_min (Val x) (Val y) = Val (min x y)"
| "Math_min _ _ = NaN"

text \<open>
  A store into a \<open>Uint8ClampedArray\<close> (the \<open>data\<close> of an \<open>ImageData\<close>) converts the number
  with ToUint8Clamp: \<open>NaN\<close> becomes 0, the value is clamped to \<open>[0, 255]\<close> and rounded
  to the nearest integer, a tie going to the even one.
\<close>

definition ToUint8Clamp :: "number \<Rightarrow> byte" where
  "ToUint8Clamp n =
     (case n of
        NaN \<Rightarrow> 0
      | Val x \<Rightarrow>
          (let clamped = min (max x 0) 255;
               f = \<lfloor>clamped\<rfloor>
           in word_of_int
                (if of_int f + 1 / 2 < clamped then f + 1
                 else if clamped < of_int f + 1 / 2 then f
                 else if even f then f else f + 1)))"

text \<open>Reading element \<open>i\<close> of a \<open>Float32Array\<close>.\<close>

definition f32_read :: "number list \<Rightarrow> nat \<Rightarrow> number" where
  "f32_read xs i = (if i < length xs then xs ! i else NaN)"

text \<open>Reading element \<open>i\<close> of a \<open>Uint8ClampedArray\<close>, as a number.\<close>

definition u8_read :: "byte list \<Rightarrow> nat \<Rightarrow> number" where
  "u8_read xs i = (if i < length xs then Val (real (unat (xs ! i))) else NaN)"

text \<open>Indexing a JavaScript array: \<open>undefined\<close> out of range.\<close>

definition js_at :: "'a list \<Rightarrow> int \<Rightarrow> 'a option" where
  "js_at xs i = (if 0 \<le> i \<and> nat i < length xs then Some (xs ! nat i) else None)"

subsection \<open>Canvases and the rasteriser\<close>

record canvas =
  cwidth :: nat
  cheight :: nat
  cdata :: "byte list"

text \<open>\<open>document.createElement('canvas')\<close> with its width and height set: transparent black.\<close>

definition newCanvas :: "nat \<Rightarrow> nat \<Rightarrow> canvas" where
  "newCanvas w h = \<lparr>cwidth = w, cheight = h, cdata = replicate (4 * w * h) 0\<rparr>"

text \<open>
  The rasteriser: for a filter, a source canvas, the size \<open>dw\<close>, \<open>dh\<close> of the
  destination rectangle at the origin and the destination canvas as it was, the byte at
  each index of the destination bitmap after the drawing.
\<close>

type_synonym rasteriser = "string \<Rightarrow> canvas \<Rightarrow> nat \<Rightarrow> nat \<Rightarrow> canvas \<Rightarrow> nat \<Rightarrow> byte"

text \<open>
  \<open>ctx.filter = flt; ctx.drawImage(src, 0, 0, dw, dh)\<close> on the context of \<open>dst\<close>. The
  three-argument form \<open>drawImage(src, 0, 0)\<close> is the one with \<open>dw\<close>, \<open>dh\<close> the size of
  \<open>src\<close>.
\<close>

definition drawImage :: "rasteriser \<Rightarrow> string \<Rightarrow> canvas \<Rightarrow> canvas \<Rightarrow> nat \<Rightarrow> nat \<Rightarrow> error + canvas" where
  "drawImage R flt dst src dw dh =
     (if cwidth src = 0 \<or> cheight src = 0 then Inl InvalidStateError
      else Inr (dst\<lparr>cdata := map (R flt src dw dh dst) [0..<4 * cwidth dst * cheight dst]\<rparr>))"

subsection \<open>The class FloatImage\<close>

record FloatImage =
  width :: nat
  height :: nat
  r :: "number list"
  g :: "number list"
  b :: "number list"

text \<open>The constructor: three zeroed arrays of \<open>w * h\<close> samples.\<close>

definition new_FloatImage :: "nat \<Rightarrow> nat \<Rightarrow> FloatImage" where
  "new_FloatImage w h =
     \<lparr>width = w, height = h,
      r = replicate (w * h) (Val 0), g = replicate (w * h) (Val 0), b = replicate (w * h) (Val 0)\<rparr>"

text \<open>
  \<open>fromCanvas\<close>: the loop runs over \<open>i < id.data.length / 4\<close> and stores byte \<open>4i + k\<close>
  into element \<open>i\<close> of channel \<open>k\<close>; a store beyond the \<open>w * h\<close> elements of the channel
  is ignored and an element never stored keeps its 0. The alpha byte is dropped.
\<close>

definition channel_of_data :: "byte list \<Rightarrow> nat \<Rightarrow> nat \<Rightarrow> number list" where
  "channel_of_data d k n =
     map (\<lambda>i. if 4 * i < length d then u8_read d (i * 4 + k) else Val 0) [0..<n]"

definition fromCanvas :: "canvas \<Rightarrow> error + FloatImage" where
  "fromCanvas c =
     (if cwidth c = 0 \<or> cheight c = 0 then Inl IndexSizeError
      else Inr \<lparr>width = cwidth c, height = cheight c,
                r = channel_of_data (cdata c) 0 (cwidth c * cheight c),
                g = channel_of_data (cdata c) 1 (cwidth c * cheight c),
                b = channel_of_data (cdata c) 2 (cwidth c * cheight c)\<rparr>)"

text \<open>
  \<open>toCanvas\<close> and \<open>toVisualCanvas\<close> differ in the offset only: each stores, for every
  pixel \<open>i < width * height\<close>, \<open>Math.min(255, Math.max(0, v + off))\<close> of the three channels
  and 255 for alpha into the image data, and puts the image data on a new canvas.
\<close>

definition clamp255 :: "number \<Rightarrow> number" where
  "clamp255 v = Math_min (Val 255) (Math_max (Val 0) v)"

definition toCanvas :: "FloatImage \<Rightarrow> error + canvas" where
  "toCanvas img =
     (if width img = 0 \<or> height img = 0 then Inl IndexSizeError
      else Inr \<lparr>cwidth = width img, cheight = height img,
                cdata = concat (map (\<lambda>i.
                  [ToUint8Clamp (clamp255 (f32_read (r img) i)),
                   ToUint8Clamp (clamp255 (f32_read (g img) i)),
                   ToUint8Clamp (clamp255 (f32_read (b img) i)),
                   255]) [0..<width img * height img])\<rparr>)"

definition toVisualCanvas :: "FloatImage \<Rightarrow> error + canvas" where
  "toVisualCanvas img =
     (if width img = 0 \<or> height img = 0 then Inl IndexSizeError
      else Inr \<lparr>cwidth = width img, cheight = height img,
                cdata = concat (map (\<lambda>i.
                  [ToUint8Clamp (clamp255 (f32_read (r img) i + Val 128)),
                   ToUint8Clamp (clamp255 (f32_read (g img) i + Val 128)),
                   ToUint8Clamp (clamp255 (f32_read (b img) i + Val 128)),
                   255]) [0..<width img * height img])\<rparr>)"

subsection \<open>Reduce and Expand\<close>

definition downsampleFloat :: "rasteriser \<Rightarrow> FloatImage \<Rightarrow> error + FloatImage" where
  "downsampleFloat R img =
     (case toCanvas img of
        Inl e \<Rightarrow> Inl e
      | Inr c \<Rightarrow>
          (let w = cwidth c div 2; h = cheight c div 2
           in if w = 0 \<or> h = 0 then Inr img
              else (case drawImage R ''blur(2px)'' (newCanvas w h) c w h of
                      Inl e \<Rightarrow> Inl e
                    | Inr small \<Rightarrow> fromCanvas small)))"

definition upsampleFloat :: "rasteriser \<Rightarrow> FloatImage \<Rightarrow> nat \<Rightarrow> nat \<Rightarrow> error + FloatImage" where
  "upsampleFloat R img targetW targetH =
     (case toCanvas img of
        Inl e \<Rightarrow> Inl e
      | Inr c \<Rightarrow>
          (case drawImage R ''none'' (newCanvas targetW targetH) c targetW targetH of
             Inl e \<Rightarrow> Inl e
           | Inr large \<Rightarrow>
               (case drawImage R ''blur(2px)'' (newCanvas targetW targetH) large
                       (cwidth large) (cheight large) of
                  Inl e \<Rightarrow> Inl e
                | Inr blurred \<Rightarrow> fromCanvas blurred)))"

subsection \<open>Loops\<close>

text \<open>
  A loop, or an \<open>Array.map\<close>, that computes one element per step and pushes it; the first
  exception ends it.
\<close>

fun traverse :: "('a \<Rightarrow> error + 'b) \<Rightarrow> 'a list \<Rightarrow> error + 'b list" where
  "traverse f [] = Inr []"
| "traverse f (x # xs) =
     (case f x of
        Inl e \<Rightarrow> Inl e
      | Inr y \<Rightarrow> (case traverse f xs of Inl e \<Rightarrow> Inl e | Inr ys \<Rightarrow> Inr (y # ys)))"

text \<open>
  A pixel loop \<open>for (p = 0; p < bound; p++) arr[p] = f(p)\<close> into a zeroed typed array of
  \<open>len\<close> elements: a store beyond the array is ignored, an element not reached stays 0.
\<close>

definition pixel_loop :: "nat \<Rightarrow> nat \<Rightarrow> (nat \<Rightarrow> number) \<Rightarrow> number list" where
  "pixel_loop bound len f = map (\<lambda>p. if p < bound then f p else Val 0) [0..<len]"

subsection \<open>processPyramidBlending\<close>

text \<open>Phase 1, the loop that builds the three Gaussian pyramids in step.\<close>

type_synonym pyramids = "FloatImage list \<times> FloatImage list \<times> FloatImage list"

fun gaussianLoop ::
  "rasteriser \<Rightarrow> nat \<Rightarrow> FloatImage \<times> FloatImage \<times> FloatImage \<Rightarrow> pyramids \<Rightarrow> error + pyramids" where
  "gaussianLoop R 0 imgs pyr = Inr pyr"
| "gaussianLoop R (Suc n) (currA, currB, currM) (GA, GB, GM) =
     (case downsampleFloat R currA of
        Inl e \<Rightarrow> Inl e
      | Inr a \<Rightarrow>
          (case downsampleFloat R currB of
             Inl e \<Rightarrow> Inl e
           | Inr b' \<Rightarrow>
               (case downsampleFloat R currM of
                  Inl e \<Rightarrow> Inl e
                | Inr m \<Rightarrow> gaussianLoop R n (a, b', m) (GA @ [a], GB @ [b'], GM @ [m]))))"

text \<open>
  Phase 2, one step of the loop: the Laplacian levels \<open>i\<close> of A and of B. The pixel loop
  is bounded by the length of \<open>lapA.r\<close> for both images.
\<close>

definition subtractFrom :: "nat \<Rightarrow> FloatImage \<Rightarrow> FloatImage \<Rightarrow> FloatImage" where
  "subtractFrom bound G up =
     \<lparr>width = width G, height = height G,
      r = pixel_loop bound (width G * height G) (\<lambda>p. f32_read (r G) p - f32_read (r up) p),
      g = pixel_loop bound (width G * height G) (\<lambda>p. f32_read (g G) p - f32_read (g up) p),
      b = pixel_loop bound (width G * height G) (\<lambda>p. f32_read (b G) p - f32_read (b up) p)\<rparr>"

definition laplacianLevel ::
  "rasteriser \<Rightarrow> FloatImage list \<Rightarrow> FloatImage list \<Rightarrow> nat \<Rightarrow> error + (FloatImage \<times> FloatImage)" where
  "laplacianLevel R GA GB i =
     (case js_at GA (int i) of
        None \<Rightarrow> Inl TypeError
      | Some ga \<Rightarrow>
     (case js_at GA (int i + 1) of
        None \<Rightarrow> Inl TypeError
      | Some ga1 \<Rightarrow>
     (case upsampleFloat R ga1 (width ga) (height ga) of
        Inl e \<Rightarrow> Inl e
      | Inr nextA_up \<Rightarrow>
     (case js_at GB (int i) of
        None \<Rightarrow> Inl TypeError
      | Some gb \<Rightarrow>
     (case js_at GB (int i + 1) of
        None \<Rightarrow> Inl TypeError
      | Some gb1 \<Rightarrow>
     (case upsampleFloat R gb1 (width gb) (height gb) of
        Inl e \<Rightarrow> Inl e
      | Inr nextB_up \<Rightarrow>
          Inr (subtractFrom (width ga * height ga) ga nextA_up,
               subtractFrom (width ga * height ga) gb nextB_up)))))))"

text \<open>
  Phase 2: the loop over \<open>i < levels\<close>, then the push of \<open>GA[levels]\<close> and \<open>GB[levels]\<close>,
  which are \<open>undefined\<close> for an index out of range.
\<close>

type_synonym laplacians = "FloatImage option list \<times> FloatImage option list"

definition laplacianPyramids ::
  "rasteriser \<Rightarrow> FloatImage list \<Rightarrow> FloatImage list \<Rightarrow> int \<Rightarrow> error + laplacians" where
  "laplacianPyramids R GA GB levels =
     (case traverse (laplacianLevel R GA GB) [0..<nat levels] of
        Inl e \<Rightarrow> Inl e
      | Inr laps \<Rightarrow>
          Inr (map (Some \<circ> fst) laps @ [js_at GA levels],
               map (Some \<circ> snd) laps @ [js_at GB levels]))"

text \<open>
  Phase 3, one step: the blended level \<open>i\<close>. The weight of all three channels is read
  from \<open>mask.r\<close>. The mask and \<open>LB[i]\<close> are looked at inside the pixel loop only.
\<close>

definition blendPixels :: "FloatImage \<Rightarrow> FloatImage \<Rightarrow> FloatImage \<Rightarrow> FloatImage" where
  "blendPixels la lb msk =
     (let n = width la * height la;
          alpha = (\<lambda>p. div255 (f32_read (r msk) p))
      in \<lparr>width = width la, height = height la,
          r = pixel_loop n n
                (\<lambda>p. f32_read (r la) p * alpha p + f32_read (r lb) p * (Val 1 - alpha p)),
          g = pixel_loop n n
                (\<lambda>p. f32_read (g la) p * alpha p + f32_read (g lb) p * (Val 1 - alpha p)),
          b = pixel_loop n n
                (\<lambda>p. f32_read (b la) p * alpha p + f32_read (b lb) p * (Val 1 - alpha p))\<rparr>)"

definition blendLevel ::
  "FloatImage option list \<Rightarrow> FloatImage option list \<Rightarrow> FloatImage list \<Rightarrow> nat \<Rightarrow> error + FloatImage" where
  "blendLevel LA LB GM i =
     (case js_at LA (int i) of
        None \<Rightarrow> Inl TypeError
      | Some None \<Rightarrow> Inl TypeError
      | Some (Some la) \<Rightarrow>
          if width la * height la = 0 then Inr (new_FloatImage (width la) (height la))
          else (case js_at GM (int i) of
                  None \<Rightarrow> Inl TypeError
                | Some msk \<Rightarrow>
                    (case js_at LB (int i) of
                       None \<Rightarrow> Inl TypeError
                     | Some None \<Rightarrow> Inl TypeError
                     | Some (Some lb) \<Rightarrow> Inr (blendPixels la lb msk))))"

text \<open>Phase 3: the loop over \<open>i \<le> levels\<close>.\<close>

definition blendLaplacians ::
  "FloatImage option list \<Rightarrow> FloatImage option list \<Rightarrow> FloatImage list \<Rightarrow> int \<Rightarrow> error + FloatImage list" where
  "blendLaplacians LA LB GM levels = traverse (blendLevel LA LB GM) [0..<nat (levels + 1)]"

text \<open>
  Phase 4: \<open>currentImg\<close> starts as \<open>L_Out[levels]\<close>; the loop runs \<open>i\<close> from \<open>levels - 1\<close>
  down to 0. The first argument of \<open>reconstructLoop\<close> is \<open>i + 1\<close>.
\<close>

definition addImages :: "FloatImage \<Rightarrow> FloatImage \<Rightarrow> FloatImage" where
  "addImages l up =
     (let n = width l * height l
      in \<lparr>width = width l, height = height l,
          r = pixel_loop n n (\<lambda>p. f32_read (r l) p + f32_read (r up) p),
          g = pixel_loop n n (\<lambda>p. f32_read (g l) p + f32_read (g up) p),
          b = pixel_loop n n (\<lambda>p. f32_read (b l) p + f32_read (b up) p)\<rparr>)"

fun reconstructLoop ::
  "rasteriser \<Rightarrow> FloatImage list \<Rightarrow> nat \<Rightarrow> FloatImage option \<Rightarrow> error + FloatImage option" where
  "reconstructLoop R L_Out 0 currentImg = Inr currentImg"
| "reconstructLoop R L_Out (Suc i) currentImg =
     (case js_at L_Out (int i) of
        None \<Rightarrow> Inl TypeError
      | Some l \<Rightarrow>
          (case currentImg of
             None \<Rightarrow> Inl TypeError
           | Some cur \<Rightarrow>
               (case upsampleFloat R cur (width l) (height l) of
                  Inl e \<Rightarrow> Inl e
                | Inr up \<Rightarrow> reconstructLoop R L_Out i (Some (addImages l up)))))"

definition reconstruct :: "rasteriser \<Rightarrow> FloatImage list \<Rightarrow> int \<Rightarrow> error + FloatImage option" where
  "reconstruct R L_Out levels = reconstructLoop R L_Out (nat levels) (js_at L_Out levels)"

text \<open>The object that \<open>processPyramidBlending\<close> resolves to.\<close>

record blending =
  result :: canvas
  laplacians :: "canvas list"
  gaussiansA :: "canvas list"
  gaussiansB :: "canvas list"

definition gaussianPyramids :: "rasteriser \<Rightarrow> canvas \<Rightarrow> canvas \<Rightarrow> canvas \<Rightarrow> int \<Rightarrow> error + pyramids" where
  "gaussianPyramids R canvasA canvasB canvasMask levels =
     (case fromCanvas canvasA of
        Inl e \<Rightarrow> Inl e
      | Inr currA \<Rightarrow>
     (case fromCanvas canvasB of
        Inl e \<Rightarrow> Inl e
      | Inr currB \<Rightarrow>
     (case fromCanvas canvasMask of
        Inl e \<Rightarrow> Inl e
      | Inr currM \<Rightarrow>
          gaussianLoop R (nat levels) (currA, currB, currM) ([currA], [currB], [currM]))))"

definition processPyramidBlending ::
  "rasteriser \<Rightarrow> canvas \<Rightarrow> canvas \<Rightarrow> canvas \<Rightarrow> int \<Rightarrow> error + blending" where
  "processPyramidBlending R canvasA canvasB canvasMask levels =
     (case gaussianPyramids R canvasA canvasB canvasMask levels of
        Inl e \<Rightarrow> Inl e
      | Inr (GA, GB, GM) \<Rightarrow>
     (case laplacianPyramids R GA GB levels of
        Inl e \<Rightarrow> Inl e
      | Inr (LA, LB) \<Rightarrow>
     (case blendLaplacians LA LB GM levels of
        Inl e \<Rightarrow> Inl e
      | Inr L_Out \<Rightarrow>
     (case reconstruct R L_Out levels of
        Inl e \<Rightarrow> Inl e
      | Inr None \<Rightarrow> Inl TypeError
      | Inr (Some currentImg) \<Rightarrow>
     (case toCanvas currentImg of
        Inl e \<Rightarrow> Inl e
      | Inr res \<Rightarrow>
     (case traverse toVisualCanvas L_Out of
        Inl e \<Rightarrow> Inl e
      | Inr laps \<Rightarrow>
     (case traverse toCanvas GA of
        Inl e \<Rightarrow> Inl e
      | Inr gA \<Rightarrow>
     (case traverse toCanvas GB of
        Inl e \<Rightarrow> Inl e
      | Inr gB \<Rightarrow>
          Inr \<lparr>result = res, laplacians = laps, gaussiansA = gA, gaussiansB = gB\<rparr>))))))))"

subsection \<open>A rasteriser to run the model on\<close>

text \<open>
  Nearest-neighbour scaling of the source onto the whole destination rectangle, with no
  smoothing and no filter. It stands for no browser; it serves to evaluate the model on
  concrete canvases.
\<close>

definition nearest :: rasteriser where
  "nearest flt src dw dh dst k =
     (let p = k div 4;
          x = p mod cwidth dst;
          y = p div cwidth dst;
          sx = x * cwidth src div dw;
          sy = y * cheight src div dh;
          j = (sy * cwidth src + sx) * 4 + k mod 4
      in if j < length (cdata src) then cdata src ! j else 0)"

section \<open>Predicates and inputs used in the statements\<close>

text \<open>\<open>reduces R x xs\<close>: the list \<open>xs\<close> holds the successive reductions of \<open>x\<close>.\<close>

fun reduces :: "rasteriser \<Rightarrow> FloatImage \<Rightarrow> FloatImage list \<Rightarrow> bool" where
  "reduces R x [] = True"
| "reduces R x (y # ys) = (downsampleFloat R x = Inr y \<and> reduces R y ys)"

text \<open>
  The dimensions of the levels of a pyramid \<open>G\<close> over a source of \<open>W\<close> by \<open>H\<close> pixels. The
  smaller of \<open>W\<close> and \<open>H\<close> has an integer logarithm \<open>m\<close> to base 2; level \<open>i\<close> is the source
  halved \<open>min i m\<close> times, and every level from \<open>m\<close> on is level \<open>m\<close> itself.
\<close>

definition halves_then_freezes :: "nat \<Rightarrow> nat \<Rightarrow> FloatImage list \<Rightarrow> bool" where
  "halves_then_freezes W H G \<longleftrightarrow>
     (\<exists>m. 2 ^ m \<le> min W H \<and> min W H < 2 ^ (m + 1)) \<and>
     (\<forall>m i. 2 ^ m \<le> min W H \<and> min W H < 2 ^ (m + 1) \<and> i < length G \<longrightarrow>
        width (G ! i) = W div 2 ^ min i m \<and> height (G ! i) = H div 2 ^ min i m \<and>
        (m \<le> i \<longrightarrow> G ! i = G ! m))"

text \<open>A canvas of 4 by 1 pixels, and the image \<open>fromCanvas\<close> makes of it.\<close>

definition ex_wide :: canvas where
  "ex_wide = \<lparr>cwidth = 4, cheight = 1,
     cdata = [10, 20, 30, 255, 40, 50, 60, 255, 70, 80, 90, 255, 100, 110, 120, 255]\<rparr>"

definition ex_wide_image :: FloatImage where
  "ex_wide_image = \<lparr>width = 4, height = 1, r = [Val 10, Val 40, Val 70, Val 100],
     g = [Val 20, Val 50, Val 80, Val 110], b = [Val 30, Val 60, Val 90, Val 120]\<rparr>"

text \<open>
  Three canvases of one pixel: two images and a mask whose red byte is 255 and whose
  green and blue bytes are 0; and the images \<open>fromCanvas\<close> makes of them.
\<close>

definition ex_A :: canvas where
  "ex_A = \<lparr>cwidth = 1, cheight = 1, cdata = [10, 20, 30, 255]\<rparr>"

definition ex_B :: canvas where
  "ex_B = \<lparr>cwidth = 1, cheight = 1, cdata = [40, 50, 60, 255]\<rparr>"

definition ex_M :: canvas where
  "ex_M = \<lparr>cwidth = 1, cheight = 1, cdata = [255, 0, 0, 255]\<rparr>"

definition ex_A_image :: FloatImage where
  "ex_A_image = \<lparr>width = 1, height = 1, r = [Val 10], g = [Val 20], b = [Val 30]\<rparr>"

definition ex_B_image :: FloatImage where
  "ex_B_image = \<lparr>width = 1, height = 1, r = [Val 40], g = [Val 50], b = [Val 60]\<rparr>"

definition ex_M_image :: FloatImage where
  "ex_M_image = \<lparr>width = 1, height = 1, r = [Val 255], g = [Val 0], b = [Val 0]\<rparr>"

text \<open>What \<open>toVisualCanvas\<close> makes of \<open>ex_A_image\<close>: every byte 128 higher.\<close>

definition ex_A_visual_canvas :: canvas where
  "ex_A_visual_canvas = \<lparr>cwidth = 1, cheight = 1, cdata = [138, 148, 158, 255]\<rparr>"

text \<open>A raster of one black pixel, and what \<open>toVisualCanvas\<close> makes of it.\<close>

definition ex_zero_image :: FloatImage where
  "ex_zero_image = \<lparr>width = 1, height = 1, r = [Val 0], g = [Val 0], b = [Val 0]\<rparr>"

definition ex_gray_canvas :: canvas where
  "ex_gray_canvas = \<lparr>cwidth = 1, cheight = 1, cdata = [128, 128, 128, 255]\<rparr>"

text \<open>What \<open>processPyramidBlending\<close> returns for \<open>ex_A\<close>, \<open>ex_B\<close>, \<open>ex_M\<close> and \<open>levels = 1\<close>.\<close>

definition ex_blending :: blending where
  "ex_blending = \<lparr>result = ex_A, laplacians = [ex_gray_canvas, ex_A_visual_canvas],
     gaussiansA = [ex_A, ex_A], gaussiansB = [ex_B, ex_B]\<rparr>"

text \<open>A raster of one pixel with a negative sample, one above 255 and a fractional one.\<close>

definition ex_signed :: FloatImage where
  "ex_signed = \<lparr>width = 1, height = 1, r = [Val (- 5)], g = [Val 300], b = [Val (5 / 2)]\<rparr>"

definition ex_clamped :: FloatImage where
  "ex_clamped = \<lparr>width = 1, height = 1, r = [Val 0], g = [Val 255], b = [Val 2]\<rparr>"

text \<open>A raster of 2 by 2 pixels with samples out of range, and its pixel 0 as bytes.\<close>

definition ex_signed4 :: FloatImage where
  "ex_signed4 = \<lparr>width = 2, height = 2,
     r = [Val (- 5), Val 1, Val 2, Val 3],
     g = [Val 300, Val 4, Val 5, Val 6],
     b = [Val (5 / 2), Val 7, Val 8, Val 9]\<rparr>"

definition ex_clamped4 :: FloatImage where
  "ex_clamped4 = \<lparr>width = 2, height = 2,
     r = [Val 0, Val 1, Val 2, Val 3],
     g = [Val 255, Val 4, Val 5, Val 6],
     b = [Val 2, Val 7, Val 8, Val 9]\<rparr>"

text \<open>A raster as the constructor and \<open>fromCanvas\<close> make it: at least one pixel, and
  \<open>width * height\<close> samples in each channel.\<close>

definition well_formed :: "FloatImage \<Rightarrow> bool" where
  "well_formed img \<longleftrightarrow>
     0 < width img \<and> 0 < height img \<and>
     length (r img) = width img * height img \<and>
     length (g img) = width img * height img \<and>
     length (b img) = width img * height img"



text \<open>
  A second rasteriser to run the model on: nearest-neighbour scaling that honours
  transparency. A source pixel whose alpha byte is 0 paints nothing, and the byte of the
  destination stays as it was.
\<close>

definition alpha_nearest :: rasteriser where
  "alpha_nearest flt src dw dh dst k =
     (let p = k div 4;
          x = p mod cwidth dst;
          y = p div cwidth dst;
          sx = x * cwidth src div dw;
          sy = y * cheight src div dh;
          q = (sy * cwidth src + sx) * 4
      in if q + 3 < length (cdata src) \<and> cdata src ! (q + 3) \<noteq> 0
         then cdata src ! (q + k mod 4)
         else if k < length (cdata dst) then cdata dst ! k else 0)"


text \<open>
  Two images and two masks of 4 by 2 pixels. The masks have the same red bytes and
  different green and blue bytes.
\<close>

definition ex_P :: canvas where
  "ex_P = \<lparr>cwidth = 4, cheight = 2,
     cdata = [200, 10, 10, 255, 210, 20, 10, 255, 220, 30, 10, 255, 230, 40, 10, 255,
              200, 50, 10, 255, 210, 60, 10, 255, 220, 70, 10, 255, 230, 80, 10, 255]\<rparr>"

definition ex_Q :: canvas where
  "ex_Q = \<lparr>cwidth = 4, cheight = 2,
     cdata = [10, 10, 200, 255, 10, 20, 210, 255, 10, 30, 220, 255, 10, 40, 230, 255,
              10, 50, 200, 255, 10, 60, 210, 255, 10, 70, 220, 255, 10, 80, 230, 255]\<rparr>"

definition ex_W :: canvas where
  "ex_W = \<lparr>cwidth = 4, cheight = 2,
     cdata = [0, 0, 0, 255, 85, 85, 85, 255, 170, 170, 170, 255, 255, 255, 255, 255,
              0, 0, 0, 255, 85, 85, 85, 255, 170, 170, 170, 255, 255, 255, 255, 255]\<rparr>"


section \<open>Conversions, Reduce and the Gaussian pyramids\<close>

lemma toCanvas_Inr_iff:
  "toCanvas img = Inr c \<Longrightarrow> 0 < width img \<and> 0 < height img \<and> cwidth c = width img \<and> cheight c = height img"
  by (auto simp: toCanvas_def split: if_splits)

lemma toCanvas_ok:
  "0 < width img \<Longrightarrow> 0 < height img \<Longrightarrow> \<exists>c. toCanvas img = Inr c"
  by (simp add: toCanvas_def)

lemma fromCanvas_Inr:
  "fromCanvas c = Inr img \<Longrightarrow>
     0 < cwidth c \<and> 0 < cheight c \<and> width img = cwidth c \<and> height img = cheight c \<and>
     length (r img) = cwidth c * cheight c \<and> length (g img) = cwidth c * cheight c \<and>
     length (b img) = cwidth c * cheight c"
  by (auto simp: fromCanvas_def channel_of_data_def split: if_splits)

lemma fromCanvas_ok:
  "0 < cwidth c \<Longrightarrow> 0 < cheight c \<Longrightarrow> \<exists>img. fromCanvas c = Inr img"
  by (simp add: fromCanvas_def)

lemma drawImage_Inr:
  "drawImage R flt dst src dw dh = Inr c \<Longrightarrow>
     cwidth c = cwidth dst \<and> cheight c = cheight dst \<and>
     length (cdata c) = 4 * cwidth dst * cheight dst"
  by (auto simp: drawImage_def split: if_splits)

lemma drawImage_ok:
  "0 < cwidth src \<Longrightarrow> 0 < cheight src \<Longrightarrow> \<exists>c. drawImage R flt dst src dw dh = Inr c"
  by (simp add: drawImage_def)

lemma newCanvas_sel [simp]:
  "cwidth (newCanvas w h) = w" "cheight (newCanvas w h) = h"
  by (simp_all add: newCanvas_def)

lemma downsampleFloat_guard:
  assumes "0 < width img" "0 < height img" "width img div 2 = 0 \<or> height img div 2 = 0"
  shows "downsampleFloat R img = Inr img"
  using assms by (auto simp: downsampleFloat_def toCanvas_def Let_def)

lemma downsampleFloat_halve:
  assumes "width img div 2 \<noteq> 0" "height img div 2 \<noteq> 0"
  shows "\<exists>out. downsampleFloat R img = Inr out \<and> width out = width img div 2 \<and>
           height out = height img div 2"
proof -
  from assms have pos: "0 < width img" "0 < height img"
    by (auto intro: Nat.gr0I)
  then obtain c where c: "toCanvas img = Inr c"
    using toCanvas_ok by blast
  then have cd: "cwidth c = width img" "cheight c = height img"
    using toCanvas_Inr_iff by blast+
  obtain small where s: "drawImage R ''blur(2px)'' (newCanvas (width img div 2) (height img div 2)) c
      (width img div 2) (height img div 2) = Inr small"
    using drawImage_ok [of c] pos cd by metis
  then have sd: "cwidth small = width img div 2" "cheight small = height img div 2"
    using drawImage_Inr [OF s] by simp_all
  obtain out where o: "fromCanvas small = Inr out"
    using fromCanvas_ok [of small] sd assms by auto
  have "downsampleFloat R img = Inr out"
    using c cd s o assms by (simp add: downsampleFloat_def Let_def)
  moreover have "width out = width img div 2" "height out = height img div 2"
    using fromCanvas_Inr [OF o] sd by simp_all
  ultimately show ?thesis by blast
qed

lemma downsampleFloat_nonzero:
  assumes "0 < width img" "0 < height img"
  shows "\<exists>out. downsampleFloat R img = Inr out \<and> 0 < width out \<and> 0 < height out \<and>
           (width img div 2 = 0 \<or> height img div 2 = 0 \<longrightarrow> out = img)"
proof (cases "width img div 2 = 0 \<or> height img div 2 = 0")
  case True
  then show ?thesis using downsampleFloat_guard [OF assms True] assms by simp
next
  case False
  then show ?thesis using downsampleFloat_halve [of img R] by auto
qed


lemma gaussianLoop_chain:
  "gaussianLoop R n (a, c, m) (GA, GB, GM) = Inr (GA', GB', GM') \<Longrightarrow>
     \<exists>as cs ms. GA' = GA @ as \<and> GB' = GB @ cs \<and> GM' = GM @ ms \<and>
       length as = n \<and> length cs = n \<and> length ms = n \<and>
       reduces R a as \<and> reduces R c cs \<and> reduces R m ms"
proof (induction n arbitrary: a c m GA GB GM)
  case 0
  then show ?case by simp
next
  case (Suc n)
  from Suc.prems obtain a' c' m' where
    d: "downsampleFloat R a = Inr a'" "downsampleFloat R c = Inr c'" "downsampleFloat R m = Inr m'"
    and rest: "gaussianLoop R n (a', c', m') (GA @ [a'], GB @ [c'], GM @ [m']) = Inr (GA', GB', GM')"
    by (auto split: sum.splits)
  from Suc.IH [OF rest] obtain as cs ms where
    "GA' = (GA @ [a']) @ as" "GB' = (GB @ [c']) @ cs" "GM' = (GM @ [m']) @ ms"
    "length as = n" "length cs = n" "length ms = n"
    "reduces R a' as" "reduces R c' cs" "reduces R m' ms"
    by blast
  with d show ?case
    by (intro exI [of _ "a' # as"] exI [of _ "c' # cs"] exI [of _ "m' # ms"]) simp
qed

lemma gaussianLoop_ok:
  "0 < width a \<Longrightarrow> 0 < height a \<Longrightarrow> 0 < width c \<Longrightarrow> 0 < height c \<Longrightarrow>
   0 < width m \<Longrightarrow> 0 < height m \<Longrightarrow> \<exists>res. gaussianLoop R n (a, c, m) (GA, GB, GM) = Inr res"
proof (induction n arbitrary: a c m GA GB GM)
  case 0
  then show ?case by simp
next
  case (Suc n)
  obtain a' where a': "downsampleFloat R a = Inr a'" "0 < width a'" "0 < height a'"
    using downsampleFloat_nonzero [of a R] Suc.prems by blast
  obtain c' where c': "downsampleFloat R c = Inr c'" "0 < width c'" "0 < height c'"
    using downsampleFloat_nonzero [of c R] Suc.prems by blast
  obtain m' where m': "downsampleFloat R m = Inr m'" "0 < width m'" "0 < height m'"
    using downsampleFloat_nonzero [of m R] Suc.prems by blast
  from Suc.IH [OF a'(2,3) c'(2,3) m'(2,3)] a'(1) c'(1) m'(1) show ?case
    by simp
qed

lemma reduces_nth:
  "reduces R x xs \<Longrightarrow> i < length xs \<Longrightarrow> downsampleFloat R ((x # xs) ! i) = Inr ((x # xs) ! Suc i)"
proof (induction xs arbitrary: x i)
  case Nil
  then show ?case by simp
next
  case (Cons y ys)
  show ?case
  proof (cases i)
    case 0
    with Cons.prems show ?thesis by simp
  next
    case (Suc j)
    with Cons.prems Cons.IH [of y j] show ?thesis by simp
  qed
qed

lemma reduces_nonzero:
  "reduces R x xs \<Longrightarrow> 0 < width x \<Longrightarrow> 0 < height x \<Longrightarrow>
     \<forall>y \<in> set xs. 0 < width y \<and> 0 < height y"
proof (induction xs arbitrary: x)
  case Nil
  then show ?case by simp
next
  case (Cons y ys)
  from Cons.prems have d: "downsampleFloat R x = Inr y" and rest: "reduces R y ys"
    by simp_all
  from downsampleFloat_nonzero [OF Cons.prems(2,3), of R] d
  have "0 < width y" "0 < height y" by auto
  with Cons.IH [OF rest] show ?case by simp
qed

lemma reduces_halved:
  assumes "reduces R x xs" "i \<le> length xs"
    and "1 \<le> width x div 2 ^ i" "1 \<le> height x div 2 ^ i"
  shows "width ((x # xs) ! i) = width x div 2 ^ i \<and> height ((x # xs) ! i) = height x div 2 ^ i"
  using assms(2-)
proof (induction i)
  case 0
  then show ?case by simp
next
  case (Suc i)
  have le: "width x div 2 ^ Suc i \<le> width x div 2 ^ i" "height x div 2 ^ Suc i \<le> height x div 2 ^ i"
    by (simp_all add: div_le_mono2)
  with Suc.prems have "1 \<le> width x div 2 ^ i" "1 \<le> height x div 2 ^ i" by linarith+
  with Suc have IH: "width ((x # xs) ! i) = width x div 2 ^ i"
    "height ((x # xs) ! i) = height x div 2 ^ i" by simp_all
  have step: "downsampleFloat R ((x # xs) ! i) = Inr ((x # xs) ! Suc i)"
    using reduces_nth [OF assms(1)] Suc.prems by simp
  have half: "width x div 2 ^ i div 2 = width x div 2 ^ Suc i"
    "height x div 2 ^ i div 2 = height x div 2 ^ Suc i"
    by (simp_all add: div_mult2_eq [symmetric] mult.commute)
  with Suc.prems IH have "width ((x # xs) ! i) div 2 \<noteq> 0" "height ((x # xs) ! i) div 2 \<noteq> 0"
    by simp_all
  from downsampleFloat_halve [OF this, of R] step IH half show ?case
    by simp
qed

lemma reduces_frozen:
  assumes "reduces R x xs" "0 < width x" "0 < height x"
    and "i \<le> j" "j \<le> length xs"
    and "width ((x # xs) ! i) div 2 = 0 \<or> height ((x # xs) ! i) div 2 = 0"
  shows "(x # xs) ! j = (x # xs) ! i"
  using assms(4,5)
proof (induction j)
  case 0
  then show ?case by simp
next
  case (Suc j)
  show ?case
  proof (cases "i = Suc j")
    case True
    then show ?thesis by simp
  next
    case False
    with Suc have eq: "(x # xs) ! j = (x # xs) ! i" and j: "j < length xs" by simp_all
    have nz: "0 < width ((x # xs) ! j) \<and> 0 < height ((x # xs) ! j)"
      using reduces_nonzero [OF assms(1-3)] assms(2,3) j
      by (cases j) simp_all
    have "downsampleFloat R ((x # xs) ! j) = Inr ((x # xs) ! j)"
      using downsampleFloat_guard [of "(x # xs) ! j" R] nz assms(6) eq by simp
    with reduces_nth [OF assms(1) j] eq show ?thesis by simp
  qed
qed


lemma gaussianPyramids_Inr:
  assumes "gaussianPyramids R cA cB cM levels = Inr (GA, GB, GM)"
  shows "\<exists>a c m as cs ms. fromCanvas cA = Inr a \<and> fromCanvas cB = Inr c \<and> fromCanvas cM = Inr m \<and>
           GA = a # as \<and> GB = c # cs \<and> GM = m # ms \<and>
           length as = nat levels \<and> length cs = nat levels \<and> length ms = nat levels \<and>
           reduces R a as \<and> reduces R c cs \<and> reduces R m ms"
proof -
  from assms obtain a c m where
    f: "fromCanvas cA = Inr a" "fromCanvas cB = Inr c" "fromCanvas cM = Inr m"
    and l: "gaussianLoop R (nat levels) (a, c, m) ([a], [c], [m]) = Inr (GA, GB, GM)"
    by (auto simp: gaussianPyramids_def split: sum.splits)
  from gaussianLoop_chain [OF l] f show ?thesis by auto
qed

lemma gaussianPyramids_ok:
  assumes "0 < cwidth cA" "0 < cheight cA" "0 < cwidth cB" "0 < cheight cB"
    "0 < cwidth cM" "0 < cheight cM"
  shows "\<exists>GA GB GM. gaussianPyramids R cA cB cM levels = Inr (GA, GB, GM)"
proof -
  obtain a where a: "fromCanvas cA = Inr a" using fromCanvas_ok assms by blast
  obtain c where c: "fromCanvas cB = Inr c" using fromCanvas_ok assms by blast
  obtain m where m: "fromCanvas cM = Inr m" using fromCanvas_ok assms by blast
  have "0 < width a" "0 < height a" "0 < width c" "0 < height c" "0 < width m" "0 < height m"
    using fromCanvas_Inr [OF a] fromCanvas_Inr [OF c] fromCanvas_Inr [OF m] by simp_all
  from gaussianLoop_ok [OF this, of R "nat levels" "[a]" "[c]" "[m]"] a c m
  show ?thesis by (auto simp: gaussianPyramids_def)
qed

lemma reduces_halves_then_freezes:
  assumes red: "reduces R x xs" and pos: "0 < width x" "0 < height x"
  shows "halves_then_freezes (width x) (height x) (x # xs)"
proof -
  have "1 \<le> min (width x) (height x)" using pos by simp
  then have ex: "\<exists>m. 2 ^ m \<le> min (width x) (height x) \<and> min (width x) (height x) < 2 ^ (m + 1)"
    by (rule ex_power_ivl1 [OF order_refl])
  have "width ((x # xs) ! i) = width x div 2 ^ min i m \<and>
        height ((x # xs) ! i) = height x div 2 ^ min i m \<and>
        (m \<le> i \<longrightarrow> (x # xs) ! i = (x # xs) ! m)"
    if lo: "2 ^ m \<le> min (width x) (height x)" and hi: "min (width x) (height x) < 2 ^ (m + 1)"
      and i: "i < length (x # xs)" for m i
  proof -
    let ?G = "x # xs"
    have halved: "width (?G ! k) = width x div 2 ^ k \<and> height (?G ! k) = height x div 2 ^ k"
      if "k \<le> m" "k \<le> length xs" for k
    proof -
      have p: "(2::nat) ^ k \<le> 2 ^ m" using that by simp
      from lo have "2 ^ m \<le> width x" "2 ^ m \<le> height x" by simp_all
      then have "2 ^ k \<le> width x" "2 ^ k \<le> height x"
        using order_trans [OF p] by blast+
      then have "1 \<le> width x div 2 ^ k" "1 \<le> height x div 2 ^ k"
        by (simp_all add: div_greater_zero_iff Suc_le_eq)
      from reduces_halved [OF red that(2) this] show ?thesis .
    qed
    show ?thesis
    proof (cases "i \<le> m")
      case True
      with halved [of i] i show ?thesis by (auto simp: min_def)
    next
      case False
      then have mi: "m \<le> i" and m: "m \<le> length xs" using i by simp_all
      from halved [OF _ m] have dm: "width (?G ! m) = width x div 2 ^ m"
        "height (?G ! m) = height x div 2 ^ m" by simp_all
      have "min (width x) (height x) div 2 ^ m < 2"
        using hi by (simp add: less_mult_imp_div_less mult.commute)
      then have "width x div 2 ^ m < 2 \<or> height x div 2 ^ m < 2"
        by (auto simp: min_def split: if_splits)
      then have "width (?G ! m) div 2 = 0 \<or> height (?G ! m) div 2 = 0"
        using dm by auto
      from reduces_frozen [OF red pos mi _ this] i have "?G ! i = ?G ! m" by simp
      with dm mi show ?thesis by (simp add: min_def)
    qed
  qed
  with ex show ?thesis unfolding halves_then_freezes_def by blast
qed
section \<open>The conversions between rasters and canvases\<close>











lemma toVisualCanvas_Inr:
  "toVisualCanvas img = Inr c \<Longrightarrow>
     0 < width img \<and> 0 < height img \<and> cwidth c = width img \<and> cheight c = height img"
  by (auto simp: toVisualCanvas_def split: if_splits)

lemma toVisualCanvas_ok:
  "0 < width img \<Longrightarrow> 0 < height img \<Longrightarrow> \<exists>c. toVisualCanvas img = Inr c"
  by (simp add: toVisualCanvas_def)

lemma channel_of_data_bytes:
  assumes "length d = 4 * n" "k < 4"
  shows "channel_of_data d k n = map (\<lambda>i. Val (real (unat (d ! (4 * i + k))))) [0..<n]"
  using assms by (auto simp: channel_of_data_def u8_read_def mult.commute)

lemma byte_sample: "\<exists>k::nat. k \<le> 255 \<and> Val (real (unat (x :: byte))) = Val (real k)"
proof -
  have "unat x < 2 ^ 8" using unsigned_less [of x, where ?'a = nat] by simp
  then have "unat x \<le> 255" by simp
  then show ?thesis by blast
qed

lemma fromCanvas_drawn:
  assumes d: "drawImage R flt dst src dw dh = Inr c" and f: "fromCanvas c = Inr img"
  shows "width img = cwidth dst" "height img = cheight dst"
    "r img = map (\<lambda>i. Val (real (unat (R flt src dw dh dst (4 * i))))) [0..<cwidth dst * cheight dst]"
    "g img = map (\<lambda>i. Val (real (unat (R flt src dw dh dst (4 * i + 1))))) [0..<cwidth dst * cheight dst]"
    "b img = map (\<lambda>i. Val (real (unat (R flt src dw dh dst (4 * i + 2))))) [0..<cwidth dst * cheight dst]"
proof -
  let ?n = "cwidth dst * cheight dst"
  from d have c: "cwidth c = cwidth dst" "cheight c = cheight dst"
    "cdata c = map (R flt src dw dh dst) [0..<4 * cwidth dst * cheight dst]"
    by (auto simp: drawImage_def split: if_splits)
  then have len: "length (cdata c) = 4 * ?n" by simp
  from f have i: "width img = cwidth c" "height img = cheight c"
    "r img = channel_of_data (cdata c) 0 (cwidth c * cheight c)"
    "g img = channel_of_data (cdata c) 1 (cwidth c * cheight c)"
    "b img = channel_of_data (cdata c) 2 (cwidth c * cheight c)"
    by (auto simp: fromCanvas_def split: if_splits)
  show "width img = cwidth dst" "height img = cheight dst" using i c by simp_all
  show "r img = map (\<lambda>i. Val (real (unat (R flt src dw dh dst (4 * i))))) [0..<?n]"
    using channel_of_data_bytes [OF len, of 0] i c by simp
  show "g img = map (\<lambda>i. Val (real (unat (R flt src dw dh dst (4 * i + 1))))) [0..<?n]"
    using channel_of_data_bytes [OF len, of 1] i c by simp
  show "b img = map (\<lambda>i. Val (real (unat (R flt src dw dh dst (4 * i + 2))))) [0..<?n]"
    using channel_of_data_bytes [OF len, of 2] i c by simp
qed

lemma fromCanvas_drawn_bytes:
  assumes d: "drawImage R flt dst src dw dh = Inr c" and f: "fromCanvas c = Inr img"
  shows "\<forall>v \<in> set (r img) \<union> set (g img) \<union> set (b img). \<exists>k::nat. k \<le> 255 \<and> v = Val (real k)"
  using fromCanvas_drawn(3-5) [OF d f] byte_sample by auto

lemma upsampleFloat_Inr:
  assumes "upsampleFloat R img tw th = Inr out"
  shows "\<exists>c large blurred. toCanvas img = Inr c \<and>
           drawImage R ''none'' (newCanvas tw th) c tw th = Inr large \<and>
           drawImage R ''blur(2px)'' (newCanvas tw th) large tw th = Inr blurred \<and>
           fromCanvas blurred = Inr out"
proof -
  from assms obtain c large blurred where
    c: "toCanvas img = Inr c"
    and l: "drawImage R ''none'' (newCanvas tw th) c tw th = Inr large"
    and bl: "drawImage R ''blur(2px)'' (newCanvas tw th) large (cwidth large) (cheight large) = Inr blurred"
    and o: "fromCanvas blurred = Inr out"
    by (auto simp: upsampleFloat_def split: sum.splits)
  from drawImage_Inr [OF l] have "cwidth large = tw" "cheight large = th" by simp_all
  with c l bl o show ?thesis by auto
qed

lemma upsampleFloat_ok:
  assumes "0 < width img" "0 < height img" "0 < tw" "0 < th"
  shows "\<exists>out. upsampleFloat R img tw th = Inr out"
proof -
  obtain c where c: "toCanvas img = Inr c" using toCanvas_ok assms by blast
  then have "0 < cwidth c" "0 < cheight c" using toCanvas_Inr_iff [OF c] by simp_all
  then obtain large where l: "drawImage R ''none'' (newCanvas tw th) c tw th = Inr large"
    using drawImage_ok by blast
  from drawImage_Inr [OF l] have ld: "cwidth large = tw" "cheight large = th" by simp_all
  then obtain blurred where
    bl: "drawImage R ''blur(2px)'' (newCanvas tw th) large (cwidth large) (cheight large) = Inr blurred"
    using drawImage_ok [of large] assms by metis
  from drawImage_Inr [OF bl] have "0 < cwidth blurred" "0 < cheight blurred"
    using assms by simp_all
  then obtain out where "fromCanvas blurred = Inr out" using fromCanvas_ok by blast
  with c l bl show ?thesis by (simp add: upsampleFloat_def)
qed

lemma upsampleFloat_shape:
  assumes "upsampleFloat R img tw th = Inr out"
  shows "width out = tw \<and> height out = th \<and> 0 < tw \<and> 0 < th \<and>
         length (r out) = tw * th \<and> length (g out) = tw * th \<and> length (b out) = tw * th"
proof -
  from upsampleFloat_Inr [OF assms] obtain large blurred where
    bl: "drawImage R ''blur(2px)'' (newCanvas tw th) large tw th = Inr blurred"
    and o: "fromCanvas blurred = Inr out" by blast
  from drawImage_Inr [OF bl] fromCanvas_Inr [OF o] show ?thesis by simp
qed

lemma downsampleFloat_Inr:
  assumes "downsampleFloat R img = Inr out" "width img div 2 \<noteq> 0" "height img div 2 \<noteq> 0"
  shows "\<exists>c small. toCanvas img = Inr c \<and>
           drawImage R ''blur(2px)'' (newCanvas (width img div 2) (height img div 2)) c
             (width img div 2) (height img div 2) = Inr small \<and>
           fromCanvas small = Inr out"
proof -
  from assms(1) obtain c where c: "toCanvas img = Inr c"
    by (auto simp: downsampleFloat_def split: sum.splits)
  note cd = toCanvas_Inr_iff [OF c]
  with assms c show ?thesis
    by (auto simp: downsampleFloat_def Let_def split: sum.splits)
qed

lemma pixel_loop_nth:
  "p < bound \<Longrightarrow> p < len \<Longrightarrow> pixel_loop bound len f ! p = f p"
  by (simp add: pixel_loop_def)

lemma pixel_loop_length [simp]: "length (pixel_loop bound len f) = len"
  by (simp add: pixel_loop_def)

lemma upsampleFloat_via_canvas:
  "toCanvas img = toCanvas img' \<Longrightarrow> upsampleFloat R img tw th = upsampleFloat R img' tw th"
  by (simp add: upsampleFloat_def)

lemma downsampleFloat_via_canvas:
  assumes "toCanvas img = toCanvas img'" "width img div 2 \<noteq> 0" "height img div 2 \<noteq> 0"
  shows "downsampleFloat R img = downsampleFloat R img'"
proof -
  from assms(2,3) have "0 < width img" "0 < height img" by (auto intro: Nat.gr0I)
  then obtain c where c: "toCanvas img = Inr c" using toCanvas_ok by blast
  with assms(1) have c': "toCanvas img' = Inr c" by simp
  from toCanvas_Inr_iff [OF c] toCanvas_Inr_iff [OF c'] assms(2,3)
  have "cwidth c div 2 \<noteq> 0" "cheight c div 2 \<noteq> 0" by simp_all
  then show ?thesis by (simp add: downsampleFloat_def c c' Let_def)
qed

section \<open>The four phases\<close>

lemma processPyramidBlending_Inr:
  assumes "processPyramidBlending R cA cB cM levels = Inr out"
  shows "\<exists>GA GB GM LA LB L_Out currentImg.
           gaussianPyramids R cA cB cM levels = Inr (GA, GB, GM) \<and>
           laplacianPyramids R GA GB levels = Inr (LA, LB) \<and>
           blendLaplacians LA LB GM levels = Inr L_Out \<and>
           reconstruct R L_Out levels = Inr (Some currentImg) \<and>
           toCanvas currentImg = Inr (result out) \<and>
           traverse toVisualCanvas L_Out = Inr (laplacians out) \<and>
           traverse toCanvas GA = Inr (gaussiansA out) \<and>
           traverse toCanvas GB = Inr (gaussiansB out)"
  using assms unfolding processPyramidBlending_def
  by (auto split: sum.splits option.splits prod.splits)

lemma traverse_Inr:
  "traverse f xs = Inr ys \<Longrightarrow> length ys = length xs \<and> (\<forall>k < length xs. f (xs ! k) = Inr (ys ! k))"
proof (induction xs arbitrary: ys)
  case Nil
  then show ?case by simp
next
  case (Cons x xs)
  from Cons.prems obtain y ys' where
    y: "f x = Inr y" and r: "traverse f xs = Inr ys'" and ys: "ys = y # ys'"
    by (auto split: sum.splits)
  from Cons.IH [OF r] have len: "length ys' = length xs"
    and nth: "\<And>k. k < length xs \<Longrightarrow> f (xs ! k) = Inr (ys' ! k)" by simp_all
  have "f ((x # xs) ! k) = Inr (ys ! k)" if "k < length (x # xs)" for k
    using that y ys nth by (cases k) simp_all
  with len ys show ?case by simp
qed

lemma traverse_ok:
  "(\<And>x. x \<in> set xs \<Longrightarrow> \<exists>y. f x = Inr y) \<Longrightarrow> \<exists>ys. traverse f xs = Inr ys"
proof (induction xs)
  case Nil
  then show ?case by simp
next
  case (Cons x xs)
  from Cons.prems [of x] obtain y where y: "f x = Inr y" by auto
  from Cons.IH Cons.prems obtain ys where "traverse f xs = Inr ys" by auto
  with y show ?case by simp
qed


lemma js_at_nat [simp]: "js_at xs (int i) = (if i < length xs then Some (xs ! i) else None)"
  by (simp add: js_at_def)

lemma js_at_Suc [simp]: "js_at xs (int i + 1) = (if Suc i < length xs then Some (xs ! Suc i) else None)"
  by (simp add: js_at_def nat_add_distrib)

lemma fromCanvas_well_formed: "fromCanvas c = Inr img \<Longrightarrow> well_formed img"
  using fromCanvas_Inr [of c img] by (simp add: well_formed_def)

lemma upsampleFloat_well_formed: "upsampleFloat R img tw th = Inr out \<Longrightarrow> well_formed out"
  using upsampleFloat_shape [of R img tw th out] by (simp add: well_formed_def)

lemma downsampleFloat_well_formed:
  assumes "downsampleFloat R img = Inr out" "well_formed img"
  shows "well_formed out"
proof (cases "width img div 2 = 0 \<or> height img div 2 = 0")
  case True
  with assms have "out = img"
    using downsampleFloat_guard [of img R] by (simp add: well_formed_def)
  with assms show ?thesis by simp
next
  case False
  then have "width img div 2 \<noteq> 0" "height img div 2 \<noteq> 0" by simp_all
  from downsampleFloat_Inr [OF assms(1) this] obtain small where "fromCanvas small = Inr out"
    by blast
  then show ?thesis by (rule fromCanvas_well_formed)
qed

lemma reduces_well_formed:
  "reduces R x xs \<Longrightarrow> well_formed x \<Longrightarrow> \<forall>y \<in> set xs. well_formed y"
proof (induction xs arbitrary: x)
  case Nil
  then show ?case by simp
next
  case (Cons y ys)
  from Cons.prems have d: "downsampleFloat R x = Inr y" and rest: "reduces R y ys"
    by simp_all
  from downsampleFloat_well_formed [OF d Cons.prems(2)] Cons.IH [OF rest] show ?case
    by simp
qed

lemma gaussianPyramids_well_formed:
  assumes "gaussianPyramids R cA cB cM levels = Inr (GA, GB, GM)"
  shows "length GA = nat levels + 1" "length GB = nat levels + 1" "length GM = nat levels + 1"
    "\<forall>x \<in> set GA. well_formed x" "\<forall>x \<in> set GB. well_formed x" "\<forall>x \<in> set GM. well_formed x"
    "fromCanvas cA = Inr (GA ! 0)" "fromCanvas cB = Inr (GB ! 0)" "fromCanvas cM = Inr (GM ! 0)"
proof -
  from gaussianPyramids_Inr [OF assms] obtain a c m as cs ms where
    f: "fromCanvas cA = Inr a" "fromCanvas cB = Inr c" "fromCanvas cM = Inr m"
    and G: "GA = a # as" "GB = c # cs" "GM = m # ms"
    and len: "length as = nat levels" "length cs = nat levels" "length ms = nat levels"
    and red: "reduces R a as" "reduces R c cs" "reduces R m ms"
    by blast
  show "length GA = nat levels + 1" "length GB = nat levels + 1" "length GM = nat levels + 1"
    using G len by simp_all
  show "\<forall>x \<in> set GA. well_formed x"
    using reduces_well_formed [OF red(1)] fromCanvas_well_formed [OF f(1)] G by simp
  show "\<forall>x \<in> set GB. well_formed x"
    using reduces_well_formed [OF red(2)] fromCanvas_well_formed [OF f(2)] G by simp
  show "\<forall>x \<in> set GM. well_formed x"
    using reduces_well_formed [OF red(3)] fromCanvas_well_formed [OF f(3)] G by simp
  show "fromCanvas cA = Inr (GA ! 0)" "fromCanvas cB = Inr (GB ! 0)" "fromCanvas cM = Inr (GM ! 0)"
    using f G by simp_all
qed

lemma subtractFrom_sel [simp]:
  "width (subtractFrom n G up) = width G" "height (subtractFrom n G up) = height G"
  "length (r (subtractFrom n G up)) = width G * height G"
  "length (g (subtractFrom n G up)) = width G * height G"
  "length (b (subtractFrom n G up)) = width G * height G"
  by (simp_all add: subtractFrom_def)

lemma blendPixels_sel [simp]:
  "width (blendPixels la lb m) = width la" "height (blendPixels la lb m) = height la"
  "length (r (blendPixels la lb m)) = width la * height la"
  "length (g (blendPixels la lb m)) = width la * height la"
  "length (b (blendPixels la lb m)) = width la * height la"
  by (simp_all add: blendPixels_def Let_def)

lemma addImages_sel [simp]:
  "width (addImages l up) = width l" "height (addImages l up) = height l"
  "length (r (addImages l up)) = width l * height l"
  "length (g (addImages l up)) = width l * height l"
  "length (b (addImages l up)) = width l * height l"
  by (simp_all add: addImages_def Let_def)

lemma laplacianLevel_ok:
  assumes "Suc i < length GA" "Suc i < length GB"
    and "\<forall>x \<in> set GA \<union> set GB. well_formed x"
  shows "\<exists>upA upB.
           upsampleFloat R (GA ! Suc i) (width (GA ! i)) (height (GA ! i)) = Inr upA \<and>
           upsampleFloat R (GB ! Suc i) (width (GB ! i)) (height (GB ! i)) = Inr upB \<and>
           laplacianLevel R GA GB i =
             Inr (subtractFrom (width (GA ! i) * height (GA ! i)) (GA ! i) upA,
                  subtractFrom (width (GA ! i) * height (GA ! i)) (GB ! i) upB)"
proof -
  have wf: "well_formed (GA ! i)" "well_formed (GA ! Suc i)" "well_formed (GB ! i)" "well_formed (GB ! Suc i)"
    using assms by (simp_all add: nth_mem)
  obtain upA where a: "upsampleFloat R (GA ! Suc i) (width (GA ! i)) (height (GA ! i)) = Inr upA"
    using upsampleFloat_ok [of "GA ! Suc i" "width (GA ! i)" "height (GA ! i)" R] wf
    by (auto simp: well_formed_def)
  obtain upB where c: "upsampleFloat R (GB ! Suc i) (width (GB ! i)) (height (GB ! i)) = Inr upB"
    using upsampleFloat_ok [of "GB ! Suc i" "width (GB ! i)" "height (GB ! i)" R] wf
    by (auto simp: well_formed_def)
  from a c assms(1,2) show ?thesis
    by (simp add: laplacianLevel_def)
qed

lemma laplacianPyramids_ok:
  assumes lv: "0 \<le> levels"
    and len: "length GA = nat levels + 1" "length GB = nat levels + 1"
    and wf: "\<forall>x \<in> set GA \<union> set GB. well_formed x"
  shows "\<exists>LA LB. laplacianPyramids R GA GB levels = Inr (LA, LB) \<and>
           length LA = nat levels + 1 \<and> length LB = nat levels + 1 \<and>
           LA ! nat levels = Some (GA ! nat levels) \<and> LB ! nat levels = Some (GB ! nat levels) \<and>
           (\<forall>i < nat levels. \<exists>upA upB.
              upsampleFloat R (GA ! Suc i) (width (GA ! i)) (height (GA ! i)) = Inr upA \<and>
              upsampleFloat R (GB ! Suc i) (width (GB ! i)) (height (GB ! i)) = Inr upB \<and>
              LA ! i = Some (subtractFrom (width (GA ! i) * height (GA ! i)) (GA ! i) upA) \<and>
              LB ! i = Some (subtractFrom (width (GA ! i) * height (GA ! i)) (GB ! i) upB))"
proof -
  have step: "\<exists>upA upB.
           upsampleFloat R (GA ! Suc i) (width (GA ! i)) (height (GA ! i)) = Inr upA \<and>
           upsampleFloat R (GB ! Suc i) (width (GB ! i)) (height (GB ! i)) = Inr upB \<and>
           laplacianLevel R GA GB i =
             Inr (subtractFrom (width (GA ! i) * height (GA ! i)) (GA ! i) upA,
                  subtractFrom (width (GA ! i) * height (GA ! i)) (GB ! i) upB)"
    if "i < nat levels" for i
    using laplacianLevel_ok [of i GA GB R] that len wf by simp
  have "\<exists>y. laplacianLevel R GA GB i = Inr y" if "i \<in> set [0..<nat levels]" for i
    using step [of i] that by auto
  from traverse_ok [of "[0..<nat levels]" "laplacianLevel R GA GB", OF this]
  obtain laps where t: "traverse (laplacianLevel R GA GB) [0..<nat levels] = Inr laps"
    by blast
  from traverse_Inr [OF t] have ll: "length laps = nat levels"
    and each: "\<And>i. i < nat levels \<Longrightarrow> laplacianLevel R GA GB i = Inr (laps ! i)"
    by simp_all
  let ?LA = "map (Some \<circ> fst) laps @ [js_at GA levels]"
  let ?LB = "map (Some \<circ> snd) laps @ [js_at GB levels]"
  have top: "js_at GA levels = Some (GA ! nat levels)" "js_at GB levels = Some (GB ! nat levels)"
    using lv len by (simp_all add: js_at_def)
  have lp: "laplacianPyramids R GA GB levels = Inr (?LA, ?LB)"
    by (simp add: laplacianPyramids_def t)
  have "\<exists>upA upB.
      upsampleFloat R (GA ! Suc i) (width (GA ! i)) (height (GA ! i)) = Inr upA \<and>
      upsampleFloat R (GB ! Suc i) (width (GB ! i)) (height (GB ! i)) = Inr upB \<and>
      ?LA ! i = Some (subtractFrom (width (GA ! i) * height (GA ! i)) (GA ! i) upA) \<and>
      ?LB ! i = Some (subtractFrom (width (GA ! i) * height (GA ! i)) (GB ! i) upB)"
    if i: "i < nat levels" for i
  proof -
    from step [OF i] obtain upA upB where
      u: "upsampleFloat R (GA ! Suc i) (width (GA ! i)) (height (GA ! i)) = Inr upA"
      "upsampleFloat R (GB ! Suc i) (width (GB ! i)) (height (GB ! i)) = Inr upB"
      and l: "laplacianLevel R GA GB i =
             Inr (subtractFrom (width (GA ! i) * height (GA ! i)) (GA ! i) upA,
                  subtractFrom (width (GA ! i) * height (GA ! i)) (GB ! i) upB)"
      by blast
    from l each [OF i] have "laps ! i =
        (subtractFrom (width (GA ! i) * height (GA ! i)) (GA ! i) upA,
         subtractFrom (width (GA ! i) * height (GA ! i)) (GB ! i) upB)" by simp
    with u i ll show ?thesis by (simp add: nth_append)
  qed
  with lp ll top show ?thesis
    by (intro exI [of _ ?LA] exI [of _ ?LB]) (simp add: nth_append)
qed

lemma traverse_map:
  "(\<And>x. x \<in> set xs \<Longrightarrow> f x = Inr (h x)) \<Longrightarrow> traverse f xs = Inr (map h xs)"
  by (induction xs) simp_all

lemma blendLevel_defined:
  assumes "i < length LA" "i < length LB" "i < length GM"
    and "LA ! i = Some la" "LB ! i = Some lb" "0 < width la" "0 < height la"
  shows "blendLevel LA LB GM i = Inr (blendPixels la lb (GM ! i))"
  using assms by (simp add: blendLevel_def)

lemma blendLaplacians_ok:
  assumes lv: "0 \<le> levels"
    and len: "length LA = nat levels + 1" "length LB = nat levels + 1" "length GM = nat levels + 1"
    and each: "\<And>i. i \<le> nat levels \<Longrightarrow>
      \<exists>la lb. LA ! i = Some la \<and> LB ! i = Some lb \<and> 0 < width la \<and> 0 < height la"
  shows "\<exists>L_Out. blendLaplacians LA LB GM levels = Inr L_Out \<and> length L_Out = nat levels + 1 \<and>
           (\<forall>i \<le> nat levels. \<exists>la lb. LA ! i = Some la \<and> LB ! i = Some lb \<and>
              L_Out ! i = blendPixels la lb (GM ! i))"
proof -
  let ?h = "\<lambda>i. blendPixels (the (LA ! i)) (the (LB ! i)) (GM ! i)"
  let ?n = "nat levels + 1"
  have n: "nat (levels + 1) = ?n" using lv by simp
  have "blendLevel LA LB GM i = Inr (?h i)" if "i \<in> set [0..<?n]" for i
  proof -
    from that have i: "i \<le> nat levels" by auto
    from each [OF i] obtain la lb where
      l: "LA ! i = Some la" "LB ! i = Some lb" "0 < width la" "0 < height la" by blast
    from blendLevel_defined [of i LA LB GM la lb] l i len show ?thesis by simp
  qed
  from traverse_map [of "[0..<?n]" "blendLevel LA LB GM" ?h, OF this]
  have b: "blendLaplacians LA LB GM levels = Inr (map ?h [0..<?n])"
    by (simp only: blendLaplacians_def n)
  have "\<exists>la lb. LA ! i = Some la \<and> LB ! i = Some lb \<and> map ?h [0..<?n] ! i = blendPixels la lb (GM ! i)"
    if i: "i \<le> nat levels" for i
  proof -
    from each [OF i] obtain la lb where l: "LA ! i = Some la" "LB ! i = Some lb" by blast
    have "map ?h [0..<?n] ! i = ?h i" using i by (simp only: nth_map_upt) simp
    with l show ?thesis by simp
  qed
  with b show ?thesis by (intro exI [of _ "map ?h [0..<?n]"]) simp
qed

lemma reconstructLoop_ok:
  assumes "n \<le> length L" "\<forall>x \<in> set L. 0 < width x \<and> 0 < height x"
    "0 < width cur" "0 < height cur"
  shows "\<exists>res. reconstructLoop R L n (Some cur) = Inr (Some res) \<and>
           0 < width res \<and> 0 < height res \<and>
           (if n = 0 then res = cur else width res = width (L ! 0) \<and> height res = height (L ! 0))"
  using assms(1,3,4)
proof (induction n arbitrary: cur)
  case 0
  then show ?case by simp
next
  case (Suc n)
  then have n: "n < length L" by simp
  with assms(2) have l: "0 < width (L ! n)" "0 < height (L ! n)" by (simp_all add: nth_mem)
  obtain up where up: "upsampleFloat R cur (width (L ! n)) (height (L ! n)) = Inr up"
    using upsampleFloat_ok [OF Suc.prems(2,3) l] by blast
  have step: "reconstructLoop R L (Suc n) (Some cur) =
      reconstructLoop R L n (Some (addImages (L ! n) up))"
    using n up by simp
  from Suc.IH [of "addImages (L ! n) up"] n l obtain res where
    res: "reconstructLoop R L n (Some (addImages (L ! n) up)) = Inr (Some res)"
    "0 < width res" "0 < height res"
    "if n = 0 then res = addImages (L ! n) up
     else width res = width (L ! 0) \<and> height res = height (L ! 0)"
    by auto
  have "width res = width (L ! 0) \<and> height res = height (L ! 0)"
    using res(4) by (cases "n = 0") simp_all
  with res step show ?case by simp
qed

lemma downsampleFloat_dims_le:
  assumes "downsampleFloat R img = Inr out" "0 < width img" "0 < height img"
  shows "width out \<le> width img \<and> height out \<le> height img"
proof (cases "width img div 2 = 0 \<or> height img div 2 = 0")
  case True
  with downsampleFloat_guard [OF assms(2,3) True, of R] assms(1) show ?thesis by simp
next
  case False
  with downsampleFloat_halve [of img R] assms(1) show ?thesis by auto
qed

lemma pipeline_total:
  assumes nz: "0 < cwidth cA" "0 < cheight cA" "0 < cwidth cB" "0 < cheight cB"
    "0 < cwidth cM" "0 < cheight cM"
    and lv: "0 \<le> levels"
  shows "\<exists>GA GB GM LA LB L_Out cur.
           gaussianPyramids R cA cB cM levels = Inr (GA, GB, GM) \<and>
           laplacianPyramids R GA GB levels = Inr (LA, LB) \<and>
           blendLaplacians LA LB GM levels = Inr L_Out \<and>
           reconstruct R L_Out levels = Inr (Some cur) \<and>
           length L_Out = nat levels + 1 \<and>
           (\<forall>i \<le> nat levels. width (L_Out ! i) = width (GA ! i) \<and> height (L_Out ! i) = height (GA ! i)) \<and>
           width cur = cwidth cA \<and> height cur = cheight cA"
proof -
  from gaussianPyramids_ok [OF nz] obtain GA GB GM where
    gp: "gaussianPyramids R cA cB cM levels = Inr (GA, GB, GM)" by blast
  note G = gaussianPyramids_well_formed [OF gp]
  have wfAB: "\<forall>x \<in> set GA \<union> set GB. well_formed x" using G(4,5) by blast
  from laplacianPyramids_ok [OF lv G(1,2) wfAB, of R] obtain LA LB where
    lp: "laplacianPyramids R GA GB levels = Inr (LA, LB)"
    and lenL: "length LA = nat levels + 1" "length LB = nat levels + 1"
    and top: "LA ! nat levels = Some (GA ! nat levels)" "LB ! nat levels = Some (GB ! nat levels)"
    and lower: "\<And>i. i < nat levels \<Longrightarrow> \<exists>upA upB.
              LA ! i = Some (subtractFrom (width (GA ! i) * height (GA ! i)) (GA ! i) upA) \<and>
              LB ! i = Some (subtractFrom (width (GA ! i) * height (GA ! i)) (GB ! i) upB)"
    by blast
  have wfA: "well_formed (GA ! i)" if "i \<le> nat levels" for i
    using G(1,4) that by (simp add: nth_mem)
  have each: "\<exists>la lb. LA ! i = Some la \<and> LB ! i = Some lb \<and>
      width la = width (GA ! i) \<and> height la = height (GA ! i)" if i: "i \<le> nat levels" for i
  proof (cases "i = nat levels")
    case True
    with top show ?thesis by simp
  next
    case False
    with i have "i < nat levels" by simp
    from lower [OF this] show ?thesis by auto
  qed
  have each': "\<exists>la lb. LA ! i = Some la \<and> LB ! i = Some lb \<and> 0 < width la \<and> 0 < height la"
    if i: "i \<le> nat levels" for i
    using each [OF i] wfA [OF i] by (auto simp: well_formed_def)
  from blendLaplacians_ok [OF lv lenL G(3) each'] obtain L_Out where
    bl: "blendLaplacians LA LB GM levels = Inr L_Out"
    and lenO: "length L_Out = nat levels + 1"
    and outs: "\<And>i. i \<le> nat levels \<Longrightarrow>
      \<exists>la lb. LA ! i = Some la \<and> LB ! i = Some lb \<and> L_Out ! i = blendPixels la lb (GM ! i)"
    by blast
  have dims: "width (L_Out ! i) = width (GA ! i) \<and> height (L_Out ! i) = height (GA ! i)"
    if i: "i \<le> nat levels" for i
    using each [OF i] outs [OF i] by auto
  have nzO: "\<forall>x \<in> set L_Out. 0 < width x \<and> 0 < height x"
  proof
    fix x assume "x \<in> set L_Out"
    then obtain i where i: "i < length L_Out" "x = L_Out ! i" by (auto simp: in_set_conv_nth)
    with lenO have "i \<le> nat levels" by simp
    from dims [OF this] wfA [OF this] i show "0 < width x \<and> 0 < height x"
      by (simp add: well_formed_def)
  qed
  have start: "js_at L_Out levels = Some (L_Out ! nat levels)"
    using lv lenO by (simp add: js_at_def)
  have nzs: "0 < width (L_Out ! nat levels)" "0 < height (L_Out ! nat levels)"
    using nzO lenO by (simp_all add: nth_mem)
  from reconstructLoop_ok [of "nat levels" L_Out, OF _ nzO nzs, of R] lenO obtain cur where
    rc: "reconstructLoop R L_Out (nat levels) (Some (L_Out ! nat levels)) = Inr (Some cur)"
    and cur: "if nat levels = 0 then cur = L_Out ! nat levels
              else width cur = width (L_Out ! 0) \<and> height cur = height (L_Out ! 0)"
    by auto
  have "width cur = width (L_Out ! 0) \<and> height cur = height (L_Out ! 0)"
    using cur by (cases "nat levels = 0") simp_all
  moreover have "width (GA ! 0) = cwidth cA" "height (GA ! 0) = cheight cA"
    using fromCanvas_Inr [OF G(7)] by simp_all
  ultimately have curd: "width cur = cwidth cA" "height cur = cheight cA"
    using dims [of 0] by simp_all
  have "reconstruct R L_Out levels = Inr (Some cur)"
    using rc start by (simp add: reconstruct_def)
  with gp lp bl lenO dims curd show ?thesis by blast
qed

lemma blending_total:
  assumes nz: "0 < cwidth cA" "0 < cheight cA" "0 < cwidth cB" "0 < cheight cB"
    "0 < cwidth cM" "0 < cheight cM"
    and lv: "0 \<le> levels"
  shows "\<exists>out GA GB GM.
           processPyramidBlending R cA cB cM levels = Inr out \<and>
           gaussianPyramids R cA cB cM levels = Inr (GA, GB, GM) \<and>
           cwidth (result out) = cwidth cA \<and> cheight (result out) = cheight cA \<and>
           length (laplacians out) = nat levels + 1 \<and>
           (\<forall>i \<le> nat levels. cwidth (laplacians out ! i) = width (GA ! i) \<and>
              cheight (laplacians out ! i) = height (GA ! i))"
proof -
  from pipeline_total [OF nz lv, of R] obtain GA GB GM LA LB L_Out cur where
    gp: "gaussianPyramids R cA cB cM levels = Inr (GA, GB, GM)"
    and lp: "laplacianPyramids R GA GB levels = Inr (LA, LB)"
    and bl: "blendLaplacians LA LB GM levels = Inr L_Out"
    and rc: "reconstruct R L_Out levels = Inr (Some cur)"
    and lenO: "length L_Out = nat levels + 1"
    and dims: "\<And>i. i \<le> nat levels \<Longrightarrow>
      width (L_Out ! i) = width (GA ! i) \<and> height (L_Out ! i) = height (GA ! i)"
    and curd: "width cur = cwidth cA" "height cur = cheight cA"
    by blast
  note G = gaussianPyramids_well_formed [OF gp]
  have nzG: "0 < width x \<and> 0 < height x" if "x \<in> set GA \<union> set GB" for x
    using G(4,5) that by (auto simp: well_formed_def)
  have nzO: "0 < width x \<and> 0 < height x" if "x \<in> set L_Out" for x
  proof -
    from that obtain i where i: "i < length L_Out" "x = L_Out ! i" by (auto simp: in_set_conv_nth)
    with lenO have le: "i \<le> nat levels" by simp
    then have "GA ! i \<in> set GA" using G(1) by (simp add: nth_mem)
    with dims [OF le] nzG i show ?thesis by simp
  qed
  obtain res where res: "toCanvas cur = Inr res"
    using toCanvas_ok [of cur] curd nz by auto
  obtain laps where laps: "traverse toVisualCanvas L_Out = Inr laps"
    using traverse_ok [of L_Out toVisualCanvas] toVisualCanvas_ok nzO by blast
  obtain gA where gA: "traverse toCanvas GA = Inr gA"
    using traverse_ok [of GA toCanvas] toCanvas_ok nzG by blast
  obtain gB where gB: "traverse toCanvas GB = Inr gB"
    using traverse_ok [of GB toCanvas] toCanvas_ok nzG by blast
  let ?out = "\<lparr>result = res, laplacians = laps, gaussiansA = gA, gaussiansB = gB\<rparr>"
  have p: "processPyramidBlending R cA cB cM levels = Inr ?out"
    by (simp add: processPyramidBlending_def gp lp bl rc res laps gA gB)
  have "cwidth res = cwidth cA" "cheight res = cheight cA"
    using toCanvas_Inr_iff [OF res] curd by simp_all
  moreover have "length laps = nat levels + 1"
    using traverse_Inr [OF laps] lenO by simp
  moreover have "cwidth (laps ! i) = width (GA ! i) \<and> cheight (laps ! i) = height (GA ! i)"
    if i: "i \<le> nat levels" for i
  proof -
    from traverse_Inr [OF laps] i lenO have "toVisualCanvas (L_Out ! i) = Inr (laps ! i)" by simp
    from toVisualCanvas_Inr [OF this] dims [OF i] show ?thesis by simp
  qed
  ultimately show ?thesis using p gp by (intro exI [of _ ?out]) auto
qed

lemma gaussian_levels_shrink:
  assumes gp: "gaussianPyramids R cA cB cM levels = Inr (GA, GB, GM)" and i: "i < nat levels"
  shows "width (GA ! Suc i) \<le> width (GA ! i) \<and> height (GA ! Suc i) \<le> height (GA ! i)"
proof -
  from gaussianPyramids_Inr [OF gp] obtain a as where
    G: "GA = a # as" and len: "length as = nat levels" and red: "reduces R a as"
    by blast
  note W = gaussianPyramids_well_formed [OF gp]
  have "well_formed (GA ! i)" using W(1,4) i by (simp add: nth_mem)
  then have pos: "0 < width (GA ! i)" "0 < height (GA ! i)" by (simp_all add: well_formed_def)
  from reduces_nth [OF red, of i] i len G
  have "downsampleFloat R (GA ! i) = Inr (GA ! Suc i)" by simp
  from downsampleFloat_dims_le [OF this pos] show ?thesis .
qed

lemma blending_negative_levels:
  assumes nz: "0 < cwidth cA" "0 < cheight cA" "0 < cwidth cB" "0 < cheight cB"
    "0 < cwidth cM" "0 < cheight cM"
    and lv: "levels < 0"
  shows "processPyramidBlending R cA cB cM levels = Inl TypeError"
    and "\<exists>a c m. fromCanvas cA = Inr a \<and> fromCanvas cB = Inr c \<and> fromCanvas cM = Inr m \<and>
           gaussianPyramids R cA cB cM levels = Inr ([a], [c], [m])"
proof -
  obtain a where a: "fromCanvas cA = Inr a" using fromCanvas_ok nz by blast
  obtain c where c: "fromCanvas cB = Inr c" using fromCanvas_ok nz by blast
  obtain m where m: "fromCanvas cM = Inr m" using fromCanvas_ok nz by blast
  have n: "nat levels = 0" "nat (levels + 1) = 0" using lv by simp_all
  have gp: "gaussianPyramids R cA cB cM levels = Inr ([a], [c], [m])"
    by (simp add: gaussianPyramids_def a c m n)
  have lp: "laplacianPyramids R [a] [c] levels = Inr ([None], [None])"
    using lv by (simp add: laplacianPyramids_def n js_at_def)
  have bl: "blendLaplacians [None] [None] [m] levels = Inr []"
    by (simp add: blendLaplacians_def n)
  have rc: "reconstruct R [] levels = Inr None"
    by (simp add: reconstruct_def n js_at_def)
  show "processPyramidBlending R cA cB cM levels = Inl TypeError"
    by (simp add: processPyramidBlending_def gp lp bl rc)
  from a c m gp show "\<exists>a c m. fromCanvas cA = Inr a \<and> fromCanvas cB = Inr c \<and> fromCanvas cM = Inr m \<and>
           gaussianPyramids R cA cB cM levels = Inr ([a], [c], [m])"
    by blast
qed

lemma blending_zero_area:
  assumes "cwidth cA = 0 \<or> cheight cA = 0 \<or> cwidth cB = 0 \<or> cheight cB = 0 \<or>
    cwidth cM = 0 \<or> cheight cM = 0"
  shows "processPyramidBlending R cA cB cM levels = Inl IndexSizeError"
proof -
  have "gaussianPyramids R cA cB cM levels = Inl IndexSizeError"
    using assms by (auto simp: gaussianPyramids_def fromCanvas_def split: sum.splits)
  then show ?thesis by (simp add: processPyramidBlending_def)
qed

lemma downsampleFloat_dims:
  assumes "downsampleFloat R img = Inr out" "0 < width img" "0 < height img"
  shows "width out = (if width img div 2 = 0 \<or> height img div 2 = 0 then width img else width img div 2)"
    and "height out = (if width img div 2 = 0 \<or> height img div 2 = 0 then height img else height img div 2)"
proof -
  have "width out = (if width img div 2 = 0 \<or> height img div 2 = 0 then width img else width img div 2) \<and>
    height out = (if width img div 2 = 0 \<or> height img div 2 = 0 then height img else height img div 2)"
  proof (cases "width img div 2 = 0 \<or> height img div 2 = 0")
    case True
    with downsampleFloat_guard [OF assms(2,3) True, of R] assms(1) show ?thesis by simp
  next
    case False
    with downsampleFloat_halve [of img R] assms(1) show ?thesis by auto
  qed
  then show "width out = (if width img div 2 = 0 \<or> height img div 2 = 0 then width img else width img div 2)"
    and "height out = (if width img div 2 = 0 \<or> height img div 2 = 0 then height img else height img div 2)"
    by simp_all
qed

lemma reduces_same_dims:
  assumes "reduces R a as" "reduces R c cs" "length as = length cs"
    and "width a = width c" "height a = height c" "0 < width a" "0 < height a"
    and "i \<le> length as"
  shows "width ((a # as) ! i) = width ((c # cs) ! i) \<and> height ((a # as) ! i) = height ((c # cs) ! i)"
  using assms
proof (induction as arbitrary: a c cs i)
  case Nil
  then show ?case by simp
next
  case (Cons a' as)
  from Cons.prems(3) obtain c' cs' where cs: "cs = c' # cs'" and len: "length as = length cs'"
    by (cases cs) simp_all
  from Cons.prems(1) have da: "downsampleFloat R a = Inr a'" and ra: "reduces R a' as" by simp_all
  from Cons.prems(2) cs have dc: "downsampleFloat R c = Inr c'" and rc: "reduces R c' cs'" by simp_all
  have pc: "0 < width c" "0 < height c" using Cons.prems(4-7) by simp_all
  have eq: "width a' = width c'" "height a' = height c'"
    using downsampleFloat_dims [OF da Cons.prems(6,7)] downsampleFloat_dims [OF dc pc] Cons.prems(4,5)
    by simp_all
  have pa': "0 < width a'" "0 < height a'"
    using downsampleFloat_nonzero [OF Cons.prems(6,7), of R] da by auto
  show ?case
  proof (cases i)
    case 0
    with Cons.prems(4,5) show ?thesis by simp
  next
    case (Suc j)
    with Cons.prems(8) have "j \<le> length as" by simp
    from Cons.IH [OF ra rc len eq pa' this] Suc cs show ?thesis by simp
  qed
qed

lemma gaussianPyramids_same_dims:
  assumes gp: "gaussianPyramids R cA cB cM levels = Inr (GA, GB, GM)" and i: "i \<le> nat levels"
  shows "cwidth cB = cwidth cA \<Longrightarrow> cheight cB = cheight cA \<Longrightarrow>
           width (GB ! i) = width (GA ! i) \<and> height (GB ! i) = height (GA ! i)"
    and "cwidth cM = cwidth cA \<Longrightarrow> cheight cM = cheight cA \<Longrightarrow>
           width (GM ! i) = width (GA ! i) \<and> height (GM ! i) = height (GA ! i)"
proof -
  from gaussianPyramids_Inr [OF gp] obtain a c m as cs ms where
    f: "fromCanvas cA = Inr a" "fromCanvas cB = Inr c" "fromCanvas cM = Inr m"
    and G: "GA = a # as" "GB = c # cs" "GM = m # ms"
    and len: "length as = nat levels" "length cs = nat levels" "length ms = nat levels"
    and red: "reduces R a as" "reduces R c cs" "reduces R m ms"
    by blast
  note da = fromCanvas_Inr [OF f(1)] and dc = fromCanvas_Inr [OF f(2)] and dm = fromCanvas_Inr [OF f(3)]
  show "width (GB ! i) = width (GA ! i) \<and> height (GB ! i) = height (GA ! i)"
    if "cwidth cB = cwidth cA" "cheight cB = cheight cA"
    using reduces_same_dims [OF red(1,2), of i] len that da dc i G by simp
  show "width (GM ! i) = width (GA ! i) \<and> height (GM ! i) = height (GA ! i)"
    if "cwidth cM = cwidth cA" "cheight cM = cheight cA"
    using reduces_same_dims [OF red(1,3), of i] len that da dm i G by simp
qed

lemma f32_read_nth: "p < length xs \<Longrightarrow> f32_read xs p = xs ! p"
  by (simp add: f32_read_def)

lemma subtractFrom_nth:
  assumes "well_formed G" "well_formed up" "width up = width G" "height up = height G"
    and "n = width G * height G" "p < width G * height G"
  shows "r (subtractFrom n G up) ! p = r G ! p - r up ! p"
    "g (subtractFrom n G up) ! p = g G ! p - g up ! p"
    "b (subtractFrom n G up) ! p = b G ! p - b up ! p"
  using assms by (simp_all add: subtractFrom_def pixel_loop_nth f32_read_nth well_formed_def)

lemma blendPixels_nth:
  assumes "length (r la) = width la * height la" "length (g la) = width la * height la"
    "length (b la) = width la * height la"
    and "length (r lb) = width la * height la" "length (g lb) = width la * height la"
    "length (b lb) = width la * height la"
    and "length (r m) = width la * height la"
    and "p < width la * height la"
  shows "r (blendPixels la lb m) ! p = r la ! p * div255 (r m ! p) + r lb ! p * (Val 1 - div255 (r m ! p))"
    "g (blendPixels la lb m) ! p = g la ! p * div255 (r m ! p) + g lb ! p * (Val 1 - div255 (r m ! p))"
    "b (blendPixels la lb m) ! p = b la ! p * div255 (r m ! p) + b lb ! p * (Val 1 - div255 (r m ! p))"
  using assms by (simp_all add: blendPixels_def Let_def pixel_loop_nth f32_read_nth)

lemma gaussianPyramids_nonzero_canvases:
  assumes "gaussianPyramids R cA cB cM levels = Inr G"
  shows "0 < cwidth cA \<and> 0 < cheight cA \<and> 0 < cwidth cB \<and> 0 < cheight cB \<and>
         0 < cwidth cM \<and> 0 < cheight cM"
proof -
  obtain GA GB GM where "G = (GA, GB, GM)" by (cases G)
  with assms have gp: "gaussianPyramids R cA cB cM levels = Inr (GA, GB, GM)" by simp
  note W = gaussianPyramids_well_formed [OF gp]
  from fromCanvas_Inr [OF W(7)] fromCanvas_Inr [OF W(8)] fromCanvas_Inr [OF W(9)]
  show ?thesis by simp
qed

lemma downsampleFloat_Inr_nonzero:
  assumes "downsampleFloat R img = Inr out"
  shows "0 < width img \<and> 0 < height img \<and> 0 < width out \<and> 0 < height out"
proof -
  from assms obtain c where "toCanvas img = Inr c"
    by (auto simp: downsampleFloat_def split: sum.splits)
  then have pos: "0 < width img" "0 < height img" using toCanvas_Inr_iff by blast+
  with downsampleFloat_nonzero [OF pos, of R] assms show ?thesis by auto
qed

section \<open>Rasters that agree on the red channel\<close>












section \<open>The model on the example inputs\<close>

lemma ex_wide_fromCanvas: "fromCanvas ex_wide = Inr ex_wide_image"
  by (simp add: fromCanvas_def ex_wide_def ex_wide_image_def channel_of_data_def u8_read_def upt_rec)

lemma ex_wide_downsample: "downsampleFloat nearest ex_wide_image = Inr ex_wide_image"
  by (simp add: downsampleFloat_def toCanvas_def ex_wide_image_def)

lemma ex_A_fromCanvas: "fromCanvas ex_A = Inr ex_A_image"
  by (simp add: fromCanvas_def ex_A_def ex_A_image_def channel_of_data_def u8_read_def)

lemma ex_B_fromCanvas: "fromCanvas ex_B = Inr ex_B_image"
  by (simp add: fromCanvas_def ex_B_def ex_B_image_def channel_of_data_def u8_read_def)

lemma ex_M_fromCanvas: "fromCanvas ex_M = Inr ex_M_image"
  by (simp add: fromCanvas_def ex_M_def ex_M_image_def channel_of_data_def u8_read_def)

lemma ex_A_toCanvas: "toCanvas ex_A_image = Inr ex_A"
  by (simp add: toCanvas_def ex_A_def ex_A_image_def f32_read_def clamp255_def ToUint8Clamp_def Let_def)

lemma ex_B_toCanvas: "toCanvas ex_B_image = Inr ex_B"
  by (simp add: toCanvas_def ex_B_def ex_B_image_def f32_read_def clamp255_def ToUint8Clamp_def Let_def)

lemma ex_pyramids0: "gaussianPyramids nearest ex_A ex_B ex_M 0 = Inr ([ex_A_image], [ex_B_image], [ex_M_image])"
  by (simp add: gaussianPyramids_def ex_A_fromCanvas ex_B_fromCanvas ex_M_fromCanvas)

lemma ex_laplacians0:
  "laplacianPyramids nearest [ex_A_image] [ex_B_image] 0 = Inr ([Some ex_A_image], [Some ex_B_image])"
  by (simp add: laplacianPyramids_def js_at_def)

lemma ex_blendPixels: "blendPixels ex_A_image ex_B_image ex_M_image = ex_A_image"
  by (simp add: blendPixels_def ex_A_image_def ex_B_image_def ex_M_image_def pixel_loop_def
      f32_read_def Let_def)

lemma ex_blended0:
  "blendLaplacians [Some ex_A_image] [Some ex_B_image] [ex_M_image] 0 = Inr [ex_A_image]"
proof -
  have "width ex_A_image * height ex_A_image \<noteq> 0" by (simp add: ex_A_image_def)
  then show ?thesis
    by (simp add: blendLaplacians_def blendLevel_def js_at_def ex_blendPixels)
qed

lemma ex_reconstruct0: "reconstruct nearest [ex_A_image] 0 = Inr (Some ex_A_image)"
  by (simp add: reconstruct_def js_at_def)

lemma ex_A_visual: "toVisualCanvas ex_A_image = Inr ex_A_visual_canvas"
  by (simp add: toVisualCanvas_def ex_A_image_def ex_A_visual_canvas_def f32_read_def clamp255_def
      ToUint8Clamp_def Let_def)


lemma ex_signed_toCanvas:
  "toCanvas ex_signed = Inr \<lparr>cwidth = 1, cheight = 1, cdata = [0, 255, 2, 255]\<rparr>"
  by (simp add: toCanvas_def ex_signed_def f32_read_def clamp255_def ToUint8Clamp_def Let_def)

lemma nearest_same_size:
  "drawImage nearest flt (newCanvas (Suc 0) (Suc 0))
       \<lparr>cwidth = Suc 0, cheight = Suc 0, cdata = [x0, x1, x2, x3]\<rparr> (Suc 0) (Suc 0) =
     Inr \<lparr>cwidth = Suc 0, cheight = Suc 0, cdata = [x0, x1, x2, x3]\<rparr>"
  by (simp add: drawImage_def newCanvas_def nearest_def upt_rec)

lemma ex_signed_upsample: "upsampleFloat nearest ex_signed 1 1 = Inr ex_clamped"
  by (simp add: upsampleFloat_def ex_signed_toCanvas nearest_same_size fromCanvas_def
      channel_of_data_def u8_read_def ex_clamped_def)

lemma ex_signed4_toCanvas:
  "toCanvas ex_signed4 = Inr \<lparr>cwidth = 2, cheight = 2,
     cdata = [0, 255, 2, 255, 1, 4, 7, 255, 2, 5, 8, 255, 3, 6, 9, 255]\<rparr>"
  by (simp add: toCanvas_def ex_signed4_def f32_read_def clamp255_def ToUint8Clamp_def Let_def upt_rec)

lemma ex_clamped4_toCanvas:
  "toCanvas ex_clamped4 = Inr \<lparr>cwidth = 2, cheight = 2,
     cdata = [0, 255, 2, 255, 1, 4, 7, 255, 2, 5, 8, 255, 3, 6, 9, 255]\<rparr>"
  by (simp add: toCanvas_def ex_clamped4_def f32_read_def clamp255_def ToUint8Clamp_def Let_def upt_rec)

lemma nearest_first_pixel:
  "drawImage nearest flt (newCanvas (Suc 0) (Suc 0))
       \<lparr>cwidth = 2, cheight = 2, cdata = x0 # x1 # x2 # x3 # xs\<rparr> (Suc 0) (Suc 0) =
     Inr \<lparr>cwidth = Suc 0, cheight = Suc 0, cdata = [x0, x1, x2, x3]\<rparr>"
  by (simp add: drawImage_def newCanvas_def nearest_def upt_rec)

lemma ex_signed4_downsample: "downsampleFloat nearest ex_signed4 = Inr ex_clamped"
  by (simp add: downsampleFloat_def ex_signed4_toCanvas nearest_first_pixel fromCanvas_def
      channel_of_data_def u8_read_def ex_clamped_def)

lemma ex_wide_toCanvas: "toCanvas ex_wide_image = Inr ex_wide"
  by (simp add: toCanvas_def ex_wide_def ex_wide_image_def f32_read_def clamp255_def
      ToUint8Clamp_def Let_def upt_rec)

lemma ex_mismatch_pyramids:
  "gaussianPyramids nearest ex_A ex_wide ex_M 0 = Inr ([ex_A_image], [ex_wide_image], [ex_M_image])"
  by (simp add: gaussianPyramids_def ex_A_fromCanvas ex_wide_fromCanvas ex_M_fromCanvas)

lemma ex_mismatch_laplacians:
  "laplacianPyramids nearest [ex_A_image] [ex_wide_image] 0 = Inr ([Some ex_A_image], [Some ex_wide_image])"
  by (simp add: laplacianPyramids_def js_at_def)

lemma ex_mismatch_blendPixels: "blendPixels ex_A_image ex_wide_image ex_M_image = ex_A_image"
  by (simp add: blendPixels_def ex_A_image_def ex_wide_image_def ex_M_image_def pixel_loop_def
      f32_read_def Let_def)

lemma ex_mismatch_blended:
  "blendLaplacians [Some ex_A_image] [Some ex_wide_image] [ex_M_image] 0 = Inr [ex_A_image]"
proof -
  have "width ex_A_image * height ex_A_image \<noteq> 0" by (simp add: ex_A_image_def)
  then show ?thesis
    by (simp add: blendLaplacians_def blendLevel_def js_at_def ex_mismatch_blendPixels)
qed

lemma ex_mismatch_blending:
  "processPyramidBlending nearest ex_A ex_wide ex_M 0 =
     Inr \<lparr>result = ex_A, laplacians = [ex_A_visual_canvas],
          gaussiansA = [ex_A], gaussiansB = [ex_wide]\<rparr>"
  by (simp add: processPyramidBlending_def ex_mismatch_pyramids ex_mismatch_laplacians
      ex_mismatch_blended ex_reconstruct0 ex_A_toCanvas ex_wide_toCanvas ex_A_visual)

lemma ex_A_downsample: "downsampleFloat nearest ex_A_image = Inr ex_A_image"
  by (simp add: downsampleFloat_def toCanvas_def ex_A_image_def)

lemma ex_B_downsample: "downsampleFloat nearest ex_B_image = Inr ex_B_image"
  by (simp add: downsampleFloat_def toCanvas_def ex_B_image_def)

lemma ex_M_downsample: "downsampleFloat nearest ex_M_image = Inr ex_M_image"
  by (simp add: downsampleFloat_def toCanvas_def ex_M_image_def)

lemma ex_pyramids1:
  "gaussianPyramids nearest ex_A ex_B ex_M 1 =
     Inr ([ex_A_image, ex_A_image], [ex_B_image, ex_B_image], [ex_M_image, ex_M_image])"
  by (simp add: gaussianPyramids_def ex_A_fromCanvas ex_B_fromCanvas ex_M_fromCanvas
      ex_A_downsample ex_B_downsample ex_M_downsample)

lemma ex_A_upsample: "upsampleFloat nearest ex_A_image (Suc 0) (Suc 0) = Inr ex_A_image"
proof -
  have c: "toCanvas ex_A_image = Inr \<lparr>cwidth = Suc 0, cheight = Suc 0, cdata = [10, 20, 30, 255]\<rparr>"
    using ex_A_toCanvas by (simp add: ex_A_def)
  have f: "fromCanvas \<lparr>cwidth = Suc 0, cheight = Suc 0, cdata = [10, 20, 30, 255]\<rparr> = Inr ex_A_image"
    using ex_A_fromCanvas by (simp add: ex_A_def)
  show ?thesis
    by (simp add: upsampleFloat_def c nearest_same_size f)
qed

lemma ex_B_upsample: "upsampleFloat nearest ex_B_image (Suc 0) (Suc 0) = Inr ex_B_image"
proof -
  have c: "toCanvas ex_B_image = Inr \<lparr>cwidth = Suc 0, cheight = Suc 0, cdata = [40, 50, 60, 255]\<rparr>"
    using ex_B_toCanvas by (simp add: ex_B_def)
  have f: "fromCanvas \<lparr>cwidth = Suc 0, cheight = Suc 0, cdata = [40, 50, 60, 255]\<rparr> = Inr ex_B_image"
    using ex_B_fromCanvas by (simp add: ex_B_def)
  show ?thesis
    by (simp add: upsampleFloat_def c nearest_same_size f)
qed

lemma ex_A_minus_A: "subtractFrom (Suc 0) ex_A_image ex_A_image = ex_zero_image"
  by (simp add: subtractFrom_def ex_A_image_def ex_zero_image_def pixel_loop_def f32_read_def)

lemma ex_B_minus_B: "subtractFrom (Suc 0) ex_B_image ex_B_image = ex_zero_image"
  by (simp add: subtractFrom_def ex_B_image_def ex_zero_image_def pixel_loop_def f32_read_def)

lemma ex_dims1 [simp]:
  "width ex_A_image = Suc 0" "height ex_A_image = Suc 0"
  "width ex_B_image = Suc 0" "height ex_B_image = Suc 0"
  "width ex_zero_image = Suc 0" "height ex_zero_image = Suc 0"
  by (simp_all add: ex_A_image_def ex_B_image_def ex_zero_image_def)

lemma ex_laplacianLevel:
  "laplacianLevel nearest [ex_A_image, ex_A_image] [ex_B_image, ex_B_image] 0 =
     Inr (ex_zero_image, ex_zero_image)"
  by (simp add: laplacianLevel_def js_at_def ex_A_upsample ex_B_upsample ex_A_minus_A ex_B_minus_B)

lemma ex_laplacians1:
  "laplacianPyramids nearest [ex_A_image, ex_A_image] [ex_B_image, ex_B_image] 1 =
     Inr ([Some ex_zero_image, Some ex_A_image], [Some ex_zero_image, Some ex_B_image])"
  by (simp add: laplacianPyramids_def ex_laplacianLevel js_at_def del: js_at_nat)

lemma ex_blend_zero: "blendPixels ex_zero_image ex_zero_image ex_M_image = ex_zero_image"
  by (simp add: blendPixels_def ex_zero_image_def ex_M_image_def pixel_loop_def f32_read_def Let_def)

lemma ex_blended1:
  "blendLaplacians [Some ex_zero_image, Some ex_A_image] [Some ex_zero_image, Some ex_B_image]
     [ex_M_image, ex_M_image] 1 = Inr [ex_zero_image, ex_A_image]"
proof -
  have u: "[0..<2] = [0, Suc 0]" by (simp add: upt_rec)
  show ?thesis
    by (simp add: blendLaplacians_def u blendLevel_def js_at_def ex_blend_zero ex_blendPixels
        del: js_at_nat)
qed

lemma ex_zero_plus_A: "addImages ex_zero_image ex_A_image = ex_A_image"
  by (simp add: addImages_def ex_A_image_def ex_zero_image_def pixel_loop_def f32_read_def Let_def)

lemma ex_reconstruct1: "reconstruct nearest [ex_zero_image, ex_A_image] 1 = Inr (Some ex_A_image)"
  by (simp add: reconstruct_def js_at_def ex_A_upsample ex_zero_plus_A del: js_at_nat)

lemma ex_zero_visual: "toVisualCanvas ex_zero_image = Inr ex_gray_canvas"
  by (simp add: toVisualCanvas_def ex_zero_image_def ex_gray_canvas_def f32_read_def clamp255_def
      ToUint8Clamp_def Let_def)

lemma ex_blending1:
  "processPyramidBlending nearest ex_A ex_B ex_M 1 = Inr ex_blending"
  by (simp add: processPyramidBlending_def ex_pyramids1 ex_laplacians1 ex_blended1 ex_reconstruct1
      ex_A_toCanvas ex_B_toCanvas ex_A_visual ex_zero_visual ex_blending_def)



text \<open>
  Two canvases of one pixel, the second with alpha byte 0, on which \<open>alpha_nearest\<close>
  paints different red bytes although their red bytes agree: what it paints from a
  source that is not opaque depends on more than the red bytes.
\<close>

lemma alpha_nearest_transparent:
  "alpha_nearest ''none'' \<lparr>cwidth = 1, cheight = 1, cdata = [9, 0, 0, 255]\<rparr> 1 1 (newCanvas 1 1) (4 * 0) = 9"
  "alpha_nearest ''none'' \<lparr>cwidth = 1, cheight = 1, cdata = [9, 0, 0, 0]\<rparr> 1 1 (newCanvas 1 1) (4 * 0) = 0"
  by (simp_all add: alpha_nearest_def newCanvas_def)



section \<open>Dimensions of the pyramid levels\<close>

text \<open>
  C2, as the code has it. For canvases of at least one pixel and any \<open>levels\<close>, phase 1
  builds three pyramids of \<open>levels + 1\<close> entries (one entry for a negative \<open>levels\<close>).
  With \<open>m\<close> the integer logarithm to base 2 of the smaller dimension of the source,
  level \<open>i\<close> has the dimensions \<open>W div 2 ^ k\<close> by \<open>H div 2 ^ k\<close> for \<open>k = min i m\<close>: both
  dimensions are halved while both stay at least 1, and from level \<open>m\<close> on, where the
  smaller dimension has reached 1, every level is the raster of level \<open>m\<close>, so the larger
  dimension stops halving as well.
\<close>

theorem gaussian_level_dimensions:
  assumes "1 \<le> cwidth cA" "1 \<le> cheight cA" "1 \<le> cwidth cB" "1 \<le> cheight cB"
    "1 \<le> cwidth cM" "1 \<le> cheight cM"
  shows "\<exists>GA GB GM. gaussianPyramids R cA cB cM levels = Inr (GA, GB, GM) \<and>
           length GA = nat levels + 1 \<and> length GB = nat levels + 1 \<and> length GM = nat levels + 1 \<and>
           halves_then_freezes (cwidth cA) (cheight cA) GA \<and>
           halves_then_freezes (cwidth cB) (cheight cB) GB \<and>
           halves_then_freezes (cwidth cM) (cheight cM) GM"
proof -
  from assms obtain GA GB GM where gp: "gaussianPyramids R cA cB cM levels = Inr (GA, GB, GM)"
    using gaussianPyramids_ok [of cA cB cM R levels] by auto
  from gaussianPyramids_Inr [OF gp] obtain a c m as cs ms where
    f: "fromCanvas cA = Inr a" "fromCanvas cB = Inr c" "fromCanvas cM = Inr m"
    and G: "GA = a # as" "GB = c # cs" "GM = m # ms"
    and len: "length as = nat levels" "length cs = nat levels" "length ms = nat levels"
    and red: "reduces R a as" "reduces R c cs" "reduces R m ms"
    by blast
  note da = fromCanvas_Inr [OF f(1)] and dc = fromCanvas_Inr [OF f(2)] and dm = fromCanvas_Inr [OF f(3)]
  have "halves_then_freezes (cwidth cA) (cheight cA) GA"
    using reduces_halves_then_freezes [OF red(1)] da G by simp
  moreover have "halves_then_freezes (cwidth cB) (cheight cB) GB"
    using reduces_halves_then_freezes [OF red(2)] dc G by simp
  moreover have "halves_then_freezes (cwidth cM) (cheight cM) GM"
    using reduces_halves_then_freezes [OF red(3)] dm G by simp
  ultimately show ?thesis using gp G len by simp
qed

theorem gaussian_level_dimensions_witness:
  "1 \<le> cwidth ex_P \<and> 1 \<le> cheight ex_P \<and> 1 \<le> cwidth ex_wide \<and> 1 \<le> cheight ex_wide \<and>
   1 \<le> cwidth ex_W \<and> 1 \<le> cheight ex_W \<and>
   (2::nat) ^ 1 \<le> min (cwidth ex_P) (cheight ex_P) \<and>
   min (cwidth ex_P) (cheight ex_P) < (2::nat) ^ (1 + 1) \<and>
   (\<exists>GA GB GM. gaussianPyramids nearest ex_P ex_wide ex_W 3 = Inr (GA, GB, GM) \<and>
      length GA = nat 3 + 1 \<and> length GB = nat 3 + 1 \<and> length GM = nat 3 + 1 \<and>
      halves_then_freezes (cwidth ex_P) (cheight ex_P) GA \<and>
      halves_then_freezes (cwidth ex_wide) (cheight ex_wide) GB \<and>
      halves_then_freezes (cwidth ex_W) (cheight ex_W) GM \<and>
      width (GA ! 1) = 2 \<and> height (GA ! 1) = 1 \<and>
      width (GA ! 3) = 2 \<and> height (GA ! 3) = 1 \<and> GA ! 3 = GA ! 1)"
proof -
  have h: "1 \<le> cwidth ex_P" "1 \<le> cheight ex_P" "1 \<le> cwidth ex_wide" "1 \<le> cheight ex_wide"
    "1 \<le> cwidth ex_W" "1 \<le> cheight ex_W"
    by (simp_all add: ex_P_def ex_wide_def ex_W_def)
  have m: "(2::nat) ^ 1 \<le> min (cwidth ex_P) (cheight ex_P)"
    "min (cwidth ex_P) (cheight ex_P) < (2::nat) ^ (1 + 1)"
    by (simp_all add: ex_P_def)
  from gaussian_level_dimensions [OF h, of nearest 3] obtain GA GB GM where
    gp: "gaussianPyramids nearest ex_P ex_wide ex_W 3 = Inr (GA, GB, GM)"
    and len: "length GA = nat 3 + 1" "length GB = nat 3 + 1" "length GM = nat 3 + 1"
    and hf: "halves_then_freezes (cwidth ex_P) (cheight ex_P) GA"
      "halves_then_freezes (cwidth ex_wide) (cheight ex_wide) GB"
      "halves_then_freezes (cwidth ex_W) (cheight ex_W) GM"
    by blast
  have level: "width (GA ! i) = cwidth ex_P div 2 ^ min i 1 \<and>
      height (GA ! i) = cheight ex_P div 2 ^ min i 1 \<and> (1 \<le> i \<longrightarrow> GA ! i = GA ! 1)"
    if "i < length GA" for i
    using hf(1) m that unfolding halves_then_freezes_def by blast
  have one: "width (GA ! 1) = 2" "height (GA ! 1) = 1"
    using level [of 1] len by (simp_all add: ex_P_def)
  have "GA ! 3 = GA ! 1"
    using level [of 3] len by simp
  with one have "width (GA ! 3) = 2" "height (GA ! 3) = 1" "GA ! 3 = GA ! 1"
    by simp_all
  with one show ?thesis using h m gp len hf by blast
qed

text \<open>
  C2 as stated fails: the claim gives level 1 of a source of 4 by 1 pixels the dimensions
  \<open>max 1 (4 div 2)\<close> by \<open>max 1 (1 div 2)\<close>, that is 2 by 1. In the code the height would
  become 0, so \<open>downsampleFloat\<close> returns its input and level 1 is 4 by 1.
\<close>

theorem gaussian_level_dimensions_counterexample:
  "gaussianPyramids nearest ex_wide ex_wide ex_wide 1 =
     Inr ([ex_wide_image, ex_wide_image], [ex_wide_image, ex_wide_image],
          [ex_wide_image, ex_wide_image]) \<and>
   (width ([ex_wide_image, ex_wide_image] ! 1), height ([ex_wide_image, ex_wide_image] ! 1)) = (4, 1) \<and>
   (max 1 (cwidth ex_wide div 2 ^ 1), max 1 (cheight ex_wide div 2 ^ 1)) = (2, 1)"
  by (simp add: gaussianPyramids_def ex_wide_fromCanvas ex_wide_downsample)
    (simp add: ex_wide_def ex_wide_image_def)

section \<open>Reduce never yields a raster of zero area\<close>

text \<open>
  C10. \<open>downsampleFloat\<close> never returns a raster of zero area. On a raster of at least
  one pixel it returns, and what it returns is its input itself whenever halving would
  take the width or the height to 0, so that both dimensions stay as they are. Every
  level of the three pyramids of phase 1 has a width and a height of at least 1, and
  phase 1 builds them for all canvases of at least one pixel.
\<close>

theorem downsampleFloat_never_zero_area:
  "(downsampleFloat R img = Inr out \<longrightarrow> 1 \<le> width out \<and> 1 \<le> height out) \<and>
   (1 \<le> width img \<and> 1 \<le> height img \<longrightarrow>
      (\<exists>out. downsampleFloat R img = Inr out \<and>
         (width img div 2 = 0 \<or> height img div 2 = 0 \<longrightarrow> out = img))) \<and>
   (gaussianPyramids R cA cB cM levels = Inr (GA, GB, GM) \<longrightarrow>
      (\<forall>x \<in> set GA \<union> set GB \<union> set GM. 1 \<le> width x \<and> 1 \<le> height x)) \<and>
   (1 \<le> cwidth cA \<and> 1 \<le> cheight cA \<and> 1 \<le> cwidth cB \<and> 1 \<le> cheight cB \<and>
    1 \<le> cwidth cM \<and> 1 \<le> cheight cM \<longrightarrow>
      (\<exists>GA GB GM. gaussianPyramids R cA cB cM levels = Inr (GA, GB, GM)))"
proof (intro conjI impI)
  assume "downsampleFloat R img = Inr out"
  from downsampleFloat_Inr_nonzero [OF this] show "1 \<le> width out" "1 \<le> height out"
    by simp_all
next
  assume "1 \<le> width img \<and> 1 \<le> height img"
  then show "\<exists>out. downsampleFloat R img = Inr out \<and>
      (width img div 2 = 0 \<or> height img div 2 = 0 \<longrightarrow> out = img)"
    using downsampleFloat_nonzero [of img R] by auto
next
  assume gp: "gaussianPyramids R cA cB cM levels = Inr (GA, GB, GM)"
  note W = gaussianPyramids_well_formed [OF gp]
  show "\<forall>x \<in> set GA \<union> set GB \<union> set GM. 1 \<le> width x \<and> 1 \<le> height x"
    using W(4-6) by (auto simp: well_formed_def)
next
  assume "1 \<le> cwidth cA \<and> 1 \<le> cheight cA \<and> 1 \<le> cwidth cB \<and> 1 \<le> cheight cB \<and>
    1 \<le> cwidth cM \<and> 1 \<le> cheight cM"
  then show "\<exists>GA GB GM. gaussianPyramids R cA cB cM levels = Inr (GA, GB, GM)"
    using gaussianPyramids_ok [of cA cB cM R levels] by auto
qed

theorem downsampleFloat_never_zero_area_witness:
  "downsampleFloat nearest ex_wide_image = Inr ex_wide_image \<and>
   1 \<le> width ex_wide_image \<and> 1 \<le> height ex_wide_image \<and>
   height ex_wide_image div 2 = 0 \<and>
   (\<exists>out. downsampleFloat nearest ex_wide_image = Inr out \<and>
      (width ex_wide_image div 2 = 0 \<or> height ex_wide_image div 2 = 0 \<longrightarrow> out = ex_wide_image)) \<and>
   gaussianPyramids nearest ex_wide ex_wide ex_wide 1 =
     Inr ([ex_wide_image, ex_wide_image], [ex_wide_image, ex_wide_image],
          [ex_wide_image, ex_wide_image]) \<and>
   1 \<le> cwidth ex_wide \<and> 1 \<le> cheight ex_wide \<and>
   (\<exists>GA GB GM. gaussianPyramids nearest ex_wide ex_wide ex_wide 1 = Inr (GA, GB, GM))"
proof -
  note T = downsampleFloat_never_zero_area [of nearest ex_wide_image ex_wide_image ex_wide ex_wide ex_wide 1
      "[ex_wide_image, ex_wide_image]" "[ex_wide_image, ex_wide_image]"
      "[ex_wide_image, ex_wide_image]"]
  have gp: "gaussianPyramids nearest ex_wide ex_wide ex_wide 1 =
     Inr ([ex_wide_image, ex_wide_image], [ex_wide_image, ex_wide_image],
          [ex_wide_image, ex_wide_image])"
    by (simp add: gaussianPyramids_def ex_wide_fromCanvas ex_wide_downsample)
  from T ex_wide_downsample
  have i: "1 \<le> width ex_wide_image" "1 \<le> height ex_wide_image" by blast+
  have h: "height ex_wide_image div 2 = 0" by (simp add: ex_wide_image_def)
  from T i
  have d: "\<exists>out. downsampleFloat nearest ex_wide_image = Inr out \<and>
      (width ex_wide_image div 2 = 0 \<or> height ex_wide_image div 2 = 0 \<longrightarrow> out = ex_wide_image)"
    by blast
  have c: "1 \<le> cwidth ex_wide" "1 \<le> cheight ex_wide" by (simp_all add: ex_wide_def)
  from T c
  have e: "\<exists>GA GB GM. gaussianPyramids nearest ex_wide ex_wide ex_wide 1 = Inr (GA, GB, GM)"
    by blast
  from ex_wide_downsample i h d gp c e show ?thesis by (intro conjI)
qed

section \<open>The two conversions to a displayable canvas\<close>



section \<open>Where samples are clamped\<close>

text \<open>
  C1, as the code has it. \<open>upsampleFloat\<close> and \<open>downsampleFloat\<close> start with
  \<open>img.toCanvas()\<close>, so they do clamp and round. For every rasteriser: each sample that
  \<open>upsampleFloat\<close> returns, and each sample that \<open>downsampleFloat\<close> returns when it
  resamples (when neither half dimension is 0; otherwise it returns its input as it is),
  is an integer between 0 and 255; and both functions depend on their input raster only
  through the canvas \<open>toCanvas\<close> makes of it, that is through the samples clamped to
  \<open>[0, 255]\<close> and rounded to 8 bits. The pixel loops (the subtraction of the Laplacian
  levels, the blend, the sum of the reconstruction) work on the numbers as they are:
  nothing is clamped there, and a difference can be negative.
\<close>

theorem resampling_goes_through_bytes:
  "(upsampleFloat R img tw th = Inr out \<longrightarrow>
      (\<forall>v \<in> set (r out) \<union> set (g out) \<union> set (b out). \<exists>k::nat. k \<le> 255 \<and> v = Val (real k))) \<and>
   (downsampleFloat R img = Inr out' \<and> width img div 2 \<noteq> 0 \<and> height img div 2 \<noteq> 0 \<longrightarrow>
      (\<forall>v \<in> set (r out') \<union> set (g out') \<union> set (b out'). \<exists>k::nat. k \<le> 255 \<and> v = Val (real k))) \<and>
   (toCanvas img = toCanvas img' \<longrightarrow>
      upsampleFloat R img tw th = upsampleFloat R img' tw th \<and>
      (width img div 2 \<noteq> 0 \<and> height img div 2 \<noteq> 0 \<longrightarrow>
         downsampleFloat R img = downsampleFloat R img')) \<and>
   (p < n \<and> p < width G * height G \<longrightarrow>
      r (subtractFrom n G up) ! p = f32_read (r G) p - f32_read (r up) p \<and>
      g (subtractFrom n G up) ! p = f32_read (g G) p - f32_read (g up) p \<and>
      b (subtractFrom n G up) ! p = f32_read (b G) p - f32_read (b up) p) \<and>
   (p < width G * height G \<longrightarrow>
      r (blendPixels G lb msk) ! p =
        f32_read (r G) p * div255 (f32_read (r msk) p) +
        f32_read (r lb) p * (Val 1 - div255 (f32_read (r msk) p)) \<and>
      g (blendPixels G lb msk) ! p =
        f32_read (g G) p * div255 (f32_read (r msk) p) +
        f32_read (g lb) p * (Val 1 - div255 (f32_read (r msk) p)) \<and>
      b (blendPixels G lb msk) ! p =
        f32_read (b G) p * div255 (f32_read (r msk) p) +
        f32_read (b lb) p * (Val 1 - div255 (f32_read (r msk) p)) \<and>
      r (addImages G up) ! p = f32_read (r G) p + f32_read (r up) p \<and>
      g (addImages G up) ! p = f32_read (g G) p + f32_read (g up) p \<and>
      b (addImages G up) ! p = f32_read (b G) p + f32_read (b up) p)"
proof (intro conjI impI)
  assume u: "upsampleFloat R img tw th = Inr out"
  from upsampleFloat_Inr [OF u] obtain large blurred where
    "drawImage R ''blur(2px)'' (newCanvas tw th) large tw th = Inr blurred"
    "fromCanvas blurred = Inr out" by blast
  then show "\<forall>v \<in> set (r out) \<union> set (g out) \<union> set (b out). \<exists>k::nat. k \<le> 255 \<and> v = Val (real k)"
    by (rule fromCanvas_drawn_bytes)
next
  assume "downsampleFloat R img = Inr out' \<and> width img div 2 \<noteq> 0 \<and> height img div 2 \<noteq> 0"
  then have d: "downsampleFloat R img = Inr out'" "width img div 2 \<noteq> 0" "height img div 2 \<noteq> 0"
    by simp_all
  from downsampleFloat_Inr [OF d] obtain c small where
    "drawImage R ''blur(2px)'' (newCanvas (width img div 2) (height img div 2)) c
       (width img div 2) (height img div 2) = Inr small"
    "fromCanvas small = Inr out'" by blast
  then show "\<forall>v \<in> set (r out') \<union> set (g out') \<union> set (b out'). \<exists>k::nat. k \<le> 255 \<and> v = Val (real k)"
    by (rule fromCanvas_drawn_bytes)
next
  assume "toCanvas img = toCanvas img'"
  then show "upsampleFloat R img tw th = upsampleFloat R img' tw th"
    by (rule upsampleFloat_via_canvas)
next
  assume "toCanvas img = toCanvas img'" "width img div 2 \<noteq> 0 \<and> height img div 2 \<noteq> 0"
  then show "downsampleFloat R img = downsampleFloat R img'"
    using downsampleFloat_via_canvas by blast
next
  assume "p < n \<and> p < width G * height G"
  then have p: "p < n" "p < width G * height G" by simp_all
  show "r (subtractFrom n G up) ! p = f32_read (r G) p - f32_read (r up) p"
    "g (subtractFrom n G up) ! p = f32_read (g G) p - f32_read (g up) p"
    "b (subtractFrom n G up) ! p = f32_read (b G) p - f32_read (b up) p"
    using p by (simp_all add: subtractFrom_def pixel_loop_nth)
next
  assume p: "p < width G * height G"
  show "r (blendPixels G lb msk) ! p =
        f32_read (r G) p * div255 (f32_read (r msk) p) +
        f32_read (r lb) p * (Val 1 - div255 (f32_read (r msk) p))"
    "g (blendPixels G lb msk) ! p =
        f32_read (g G) p * div255 (f32_read (r msk) p) +
        f32_read (g lb) p * (Val 1 - div255 (f32_read (r msk) p))"
    "b (blendPixels G lb msk) ! p =
        f32_read (b G) p * div255 (f32_read (r msk) p) +
        f32_read (b lb) p * (Val 1 - div255 (f32_read (r msk) p))"
    using p by (simp_all add: blendPixels_def Let_def pixel_loop_nth)
  show "r (addImages G up) ! p = f32_read (r G) p + f32_read (r up) p"
    "g (addImages G up) ! p = f32_read (g G) p + f32_read (g up) p"
    "b (addImages G up) ! p = f32_read (b G) p + f32_read (b up) p"
    using p by (simp_all add: addImages_def Let_def pixel_loop_nth)
qed

theorem resampling_goes_through_bytes_witness:
  "upsampleFloat nearest ex_signed 1 1 = Inr ex_clamped \<and>
   (\<exists>k::nat. k \<le> 255 \<and> Val 255 = Val (real k)) \<and>
   downsampleFloat nearest ex_signed4 = Inr ex_clamped \<and>
   width ex_signed4 div 2 \<noteq> 0 \<and> height ex_signed4 div 2 \<noteq> 0 \<and>
   (\<exists>k::nat. k \<le> 255 \<and> Val 2 = Val (real k)) \<and>
   toCanvas ex_signed4 = toCanvas ex_clamped4 \<and>
   upsampleFloat nearest ex_signed4 1 1 = upsampleFloat nearest ex_clamped4 1 1 \<and>
   downsampleFloat nearest ex_signed4 = downsampleFloat nearest ex_clamped4 \<and>
   (0::nat) < 1 \<and> 0 < width ex_A_image * height ex_A_image \<and>
   r (subtractFrom 1 ex_A_image ex_B_image) ! 0 = f32_read (r ex_A_image) 0 - f32_read (r ex_B_image) 0 \<and>
   f32_read (r ex_A_image) 0 - f32_read (r ex_B_image) 0 = Val (- 30) \<and>
   b (addImages ex_A_image ex_B_image) ! 0 = f32_read (b ex_A_image) 0 + f32_read (b ex_B_image) 0 \<and>
   g (blendPixels ex_A_image ex_B_image ex_M_image) ! 0 =
     f32_read (g ex_A_image) 0 * div255 (f32_read (r ex_M_image) 0) +
     f32_read (g ex_B_image) 0 * (Val 1 - div255 (f32_read (r ex_M_image) 0))"
proof -
  note T = resampling_goes_through_bytes
    [of nearest ex_signed4 1 1 _ ex_clamped ex_clamped4 0 1 ex_A_image ex_B_image ex_B_image ex_M_image]
  have dims: "width ex_signed4 div 2 \<noteq> 0" "height ex_signed4 div 2 \<noteq> 0"
    by (simp_all add: ex_signed4_def)
  have same: "toCanvas ex_signed4 = toCanvas ex_clamped4"
    by (simp add: ex_signed4_toCanvas ex_clamped4_toCanvas)
  have pix: "(0::nat) < 1" "0 < width ex_A_image * height ex_A_image"
    by (simp_all add: ex_A_image_def)
  from resampling_goes_through_bytes
    [of nearest ex_signed 1 1 ex_clamped, THEN conjunct1] ex_signed_upsample
  have "\<forall>v \<in> set (r ex_clamped) \<union> set (g ex_clamped) \<union> set (b ex_clamped).
      \<exists>k::nat. k \<le> 255 \<and> v = Val (real k)"
    by blast
  then have bytes: "\<exists>k::nat. k \<le> 255 \<and> Val 255 = Val (real k)"
    by (simp add: ex_clamped_def)
  from T ex_signed4_downsample dims
  have "\<forall>v \<in> set (r ex_clamped) \<union> set (g ex_clamped) \<union> set (b ex_clamped).
      \<exists>k::nat. k \<le> 255 \<and> v = Val (real k)"
    by blast
  then have bytes2: "\<exists>k::nat. k \<le> 255 \<and> Val 2 = Val (real k)"
    by (simp add: ex_clamped_def)
  from T same dims
  have up: "upsampleFloat nearest ex_signed4 1 1 = upsampleFloat nearest ex_clamped4 1 1"
    and down: "downsampleFloat nearest ex_signed4 = downsampleFloat nearest ex_clamped4"
    by blast+
  from T pix
  have sub: "r (subtractFrom 1 ex_A_image ex_B_image) ! 0 =
      f32_read (r ex_A_image) 0 - f32_read (r ex_B_image) 0"
    by blast
  have neg: "f32_read (r ex_A_image) 0 - f32_read (r ex_B_image) 0 = Val (- 30)"
    by (simp add: ex_A_image_def ex_B_image_def f32_read_def)
  from T pix
  have add: "b (addImages ex_A_image ex_B_image) ! 0 =
      f32_read (b ex_A_image) 0 + f32_read (b ex_B_image) 0"
    by blast
  from T pix
  have blend: "g (blendPixels ex_A_image ex_B_image ex_M_image) ! 0 =
     f32_read (g ex_A_image) 0 * div255 (f32_read (r ex_M_image) 0) +
     f32_read (g ex_B_image) 0 * (Val 1 - div255 (f32_read (r ex_M_image) 0))"
    by blast
  from ex_signed_upsample bytes ex_signed4_downsample dims bytes2 same up down pix sub neg add blend
  show ?thesis by (intro conjI)
qed

text \<open>
  C1 as stated fails: Expand of a raster of one pixel with the samples -5, 300 and 5/2, and
  Reduce of a raster of 2 by 2 pixels whose pixel 0 has these samples, return the samples
  0, 255 and 2.
\<close>

theorem resampling_preserves_counterexample:
  "upsampleFloat nearest ex_signed 1 1 = Inr ex_clamped \<and>
   downsampleFloat nearest ex_signed4 = Inr ex_clamped \<and>
   r ex_signed = [Val (- 5)] \<and> g ex_signed = [Val 300] \<and> b ex_signed = [Val (5 / 2)] \<and>
   r ex_signed4 ! 0 = Val (- 5) \<and> g ex_signed4 ! 0 = Val 300 \<and> b ex_signed4 ! 0 = Val (5 / 2) \<and>
   r ex_clamped = [Val 0] \<and> g ex_clamped = [Val 255] \<and> b ex_clamped = [Val 2]"
proof (intro conjI)
  show "upsampleFloat nearest ex_signed 1 1 = Inr ex_clamped"
    by (rule ex_signed_upsample)
  show "downsampleFloat nearest ex_signed4 = Inr ex_clamped"
    by (rule ex_signed4_downsample)
qed (simp_all add: ex_signed_def ex_signed4_def ex_clamped_def)

section \<open>What the entry point returns\<close>

text \<open>
  C7. Whenever \<open>processPyramidBlending\<close> returns for a \<open>levels\<close> of at least 0, the result
  canvas has the width and the height of \<open>canvasA\<close>; \<open>laplacians\<close> has \<open>levels + 1\<close> entries;
  entry \<open>i\<close> has the dimensions of level \<open>i\<close> of the Gaussian pyramid of A, so entry 0 has
  the full resolution and no entry is larger than the one before it. And it does return
  for three canvases of the same size, of at least one pixel, and \<open>levels\<close> at least 0.
\<close>

theorem blend_result_dimensions:
  "(0 \<le> levels \<and> processPyramidBlending R cA cB cM levels = Inr out \<longrightarrow>
      cwidth (result out) = cwidth cA \<and> cheight (result out) = cheight cA \<and>
      length (laplacians out) = nat levels + 1 \<and>
      cwidth (laplacians out ! 0) = cwidth cA \<and> cheight (laplacians out ! 0) = cheight cA \<and>
      (\<forall>i < nat levels. cwidth (laplacians out ! Suc i) \<le> cwidth (laplacians out ! i) \<and>
         cheight (laplacians out ! Suc i) \<le> cheight (laplacians out ! i)) \<and>
      (\<exists>GA GB GM. gaussianPyramids R cA cB cM levels = Inr (GA, GB, GM) \<and>
         (\<forall>i \<le> nat levels. cwidth (laplacians out ! i) = width (GA ! i) \<and>
            cheight (laplacians out ! i) = height (GA ! i)))) \<and>
   (1 \<le> cwidth cA \<and> 1 \<le> cheight cA \<and> cwidth cB = cwidth cA \<and> cheight cB = cheight cA \<and>
    cwidth cM = cwidth cA \<and> cheight cM = cheight cA \<and> 0 \<le> levels \<longrightarrow>
      (\<exists>out. processPyramidBlending R cA cB cM levels = Inr out))"
proof (intro conjI impI)
  assume "1 \<le> cwidth cA \<and> 1 \<le> cheight cA \<and> cwidth cB = cwidth cA \<and> cheight cB = cheight cA \<and>
    cwidth cM = cwidth cA \<and> cheight cM = cheight cA \<and> 0 \<le> levels"
  then have nz: "0 < cwidth cA" "0 < cheight cA" "0 < cwidth cB" "0 < cheight cB"
    "0 < cwidth cM" "0 < cheight cM" and lv: "0 \<le> levels"
    by simp_all
  from blending_total [OF nz lv, of R]
  show "\<exists>out. processPyramidBlending R cA cB cM levels = Inr out" by blast
next
  assume a: "0 \<le> levels \<and> processPyramidBlending R cA cB cM levels = Inr out"
  then have lv: "0 \<le> levels" and p: "processPyramidBlending R cA cB cM levels = Inr out"
    by simp_all
  from processPyramidBlending_Inr [OF p] obtain G where
    "gaussianPyramids R cA cB cM levels = Inr G" by blast
  from gaussianPyramids_nonzero_canvases [OF this]
  have nz: "0 < cwidth cA" "0 < cheight cA" "0 < cwidth cB" "0 < cheight cB"
    "0 < cwidth cM" "0 < cheight cM" by simp_all
  from blending_total [OF nz lv, of R] p obtain GA GB GM where
    gp: "gaussianPyramids R cA cB cM levels = Inr (GA, GB, GM)"
    and res: "cwidth (result out) = cwidth cA" "cheight (result out) = cheight cA"
    and len: "length (laplacians out) = nat levels + 1"
    and dims: "\<And>i. i \<le> nat levels \<Longrightarrow> cwidth (laplacians out ! i) = width (GA ! i) \<and>
              cheight (laplacians out ! i) = height (GA ! i)"
    by auto
  note W = gaussianPyramids_well_formed [OF gp]
  show "cwidth (result out) = cwidth cA" "cheight (result out) = cheight cA"
    "length (laplacians out) = nat levels + 1"
    by (fact res len)+
  show "cwidth (laplacians out ! 0) = cwidth cA" "cheight (laplacians out ! 0) = cheight cA"
    using dims [of 0] fromCanvas_Inr [OF W(7)] by simp_all
  show "\<forall>i < nat levels. cwidth (laplacians out ! Suc i) \<le> cwidth (laplacians out ! i) \<and>
         cheight (laplacians out ! Suc i) \<le> cheight (laplacians out ! i)"
  proof (intro allI impI)
    fix i assume i: "i < nat levels"
    from gaussian_levels_shrink [OF gp i] dims [of i] dims [of "Suc i"] i
    show "cwidth (laplacians out ! Suc i) \<le> cwidth (laplacians out ! i) \<and>
         cheight (laplacians out ! Suc i) \<le> cheight (laplacians out ! i)" by simp
  qed
  show "\<exists>GA GB GM. gaussianPyramids R cA cB cM levels = Inr (GA, GB, GM) \<and>
         (\<forall>i \<le> nat levels. cwidth (laplacians out ! i) = width (GA ! i) \<and>
            cheight (laplacians out ! i) = height (GA ! i))"
    using gp dims by blast
qed

theorem blend_result_dimensions_witness:
  "(0::int) \<le> 1 \<and> processPyramidBlending nearest ex_A ex_B ex_M 1 = Inr ex_blending \<and>
   cwidth (result ex_blending) = cwidth ex_A \<and> cheight (result ex_blending) = cheight ex_A \<and>
   length (laplacians ex_blending) = nat 1 + 1 \<and>
   cwidth (laplacians ex_blending ! 0) = cwidth ex_A \<and>
   cheight (laplacians ex_blending ! 0) = cheight ex_A \<and>
   (0::nat) < nat 1 \<and>
   cwidth (laplacians ex_blending ! Suc 0) \<le> cwidth (laplacians ex_blending ! 0) \<and>
   cheight (laplacians ex_blending ! Suc 0) \<le> cheight (laplacians ex_blending ! 0) \<and>
   1 \<le> cwidth ex_P \<and> 1 \<le> cheight ex_P \<and>
   cwidth ex_Q = cwidth ex_P \<and> cheight ex_Q = cheight ex_P \<and>
   cwidth ex_W = cwidth ex_P \<and> cheight ex_W = cheight ex_P \<and> (0::int) \<le> 2 \<and>
   (\<exists>out. processPyramidBlending nearest ex_P ex_Q ex_W 2 = Inr out)"
proof -
  have lv: "(0::int) \<le> 1" "(0::nat) < nat 1" by simp_all
  note T = blend_result_dimensions [of 1 nearest ex_A ex_B ex_M ex_blending]
  from T lv(1) ex_blending1
  have a: "cwidth (result ex_blending) = cwidth ex_A" "cheight (result ex_blending) = cheight ex_A"
    "length (laplacians ex_blending) = nat 1 + 1"
    "cwidth (laplacians ex_blending ! 0) = cwidth ex_A"
    "cheight (laplacians ex_blending ! 0) = cheight ex_A"
    and mono: "\<forall>i < nat 1. cwidth (laplacians ex_blending ! Suc i) \<le> cwidth (laplacians ex_blending ! i) \<and>
         cheight (laplacians ex_blending ! Suc i) \<le> cheight (laplacians ex_blending ! i)"
    by blast+
  from mono lv(2)
  have m: "cwidth (laplacians ex_blending ! Suc 0) \<le> cwidth (laplacians ex_blending ! 0)"
    "cheight (laplacians ex_blending ! Suc 0) \<le> cheight (laplacians ex_blending ! 0)"
    by blast+
  have h: "1 \<le> cwidth ex_P" "1 \<le> cheight ex_P"
    "cwidth ex_Q = cwidth ex_P" "cheight ex_Q = cheight ex_P"
    "cwidth ex_W = cwidth ex_P" "cheight ex_W = cheight ex_P" "(0::int) \<le> 2"
    by (simp_all add: ex_P_def ex_Q_def ex_W_def)
  from blend_result_dimensions [of 2 nearest ex_P ex_Q ex_W] h
  have e: "\<exists>out. processPyramidBlending nearest ex_P ex_Q ex_W 2 = Inr out"
    by blast
  from lv(1) ex_blending1 a lv(2) m h e show ?thesis by (intro conjI)
qed

section \<open>The entry point validates nothing\<close>

text \<open>
  C3, as the code has it. \<open>processPyramidBlending\<close> compares no sizes and does not look
  at the sign of \<open>levels\<close>. For canvases of at least one pixel each: with \<open>levels\<close> at
  least 0 it returns a result of the size of \<open>canvasA\<close>, whether the three sizes are equal
  or not; with a negative \<open>levels\<close> it fails with a \<open>TypeError\<close>, which the final
  \<open>currentImg.toCanvas()\<close> raises on \<open>undefined\<close> after the level-0 rasters of the three
  inputs have been built. No failure of these calls comes before the rasters are
  built. The one failure that does not wait for \<open>levels\<close> is the platform's: a canvas
  of zero width or height makes \<open>getImageData\<close> raise \<open>IndexSizeError\<close> in
  \<open>fromCanvas\<close>, whatever \<open>levels\<close> is.
\<close>

theorem blend_checks_nothing:
  "(1 \<le> cwidth cA \<and> 1 \<le> cheight cA \<and> 1 \<le> cwidth cB \<and> 1 \<le> cheight cB \<and>
    1 \<le> cwidth cM \<and> 1 \<le> cheight cM \<and> 0 \<le> levels \<longrightarrow>
      (\<exists>out. processPyramidBlending R cA cB cM levels = Inr out \<and>
         cwidth (result out) = cwidth cA \<and> cheight (result out) = cheight cA)) \<and>
   (1 \<le> cwidth cA \<and> 1 \<le> cheight cA \<and> 1 \<le> cwidth cB \<and> 1 \<le> cheight cB \<and>
    1 \<le> cwidth cM \<and> 1 \<le> cheight cM \<and> levels < 0 \<longrightarrow>
      processPyramidBlending R cA cB cM levels = Inl TypeError \<and>
      (\<exists>a c m. fromCanvas cA = Inr a \<and> fromCanvas cB = Inr c \<and> fromCanvas cM = Inr m \<and>
         gaussianPyramids R cA cB cM levels = Inr ([a], [c], [m]))) \<and>
   (cwidth cA = 0 \<or> cheight cA = 0 \<or> cwidth cB = 0 \<or> cheight cB = 0 \<or>
    cwidth cM = 0 \<or> cheight cM = 0 \<longrightarrow>
      processPyramidBlending R cA cB cM levels = Inl IndexSizeError)"
proof (intro conjI impI)
  assume "1 \<le> cwidth cA \<and> 1 \<le> cheight cA \<and> 1 \<le> cwidth cB \<and> 1 \<le> cheight cB \<and>
    1 \<le> cwidth cM \<and> 1 \<le> cheight cM \<and> 0 \<le> levels"
  then have nz: "0 < cwidth cA" "0 < cheight cA" "0 < cwidth cB" "0 < cheight cB"
    "0 < cwidth cM" "0 < cheight cM" and lv: "0 \<le> levels"
    by simp_all
  from blending_total [OF nz lv, of R]
  show "\<exists>out. processPyramidBlending R cA cB cM levels = Inr out \<and>
         cwidth (result out) = cwidth cA \<and> cheight (result out) = cheight cA"
    by blast
next
  assume h: "1 \<le> cwidth cA \<and> 1 \<le> cheight cA \<and> 1 \<le> cwidth cB \<and> 1 \<le> cheight cB \<and>
    1 \<le> cwidth cM \<and> 1 \<le> cheight cM \<and> levels < 0"
  then have nz: "0 < cwidth cA" "0 < cheight cA" "0 < cwidth cB" "0 < cheight cB"
    "0 < cwidth cM" "0 < cheight cM" and lv: "levels < 0"
    by simp_all
  show "processPyramidBlending R cA cB cM levels = Inl TypeError"
    by (rule blending_negative_levels(1) [OF nz lv])
  show "\<exists>a c m. fromCanvas cA = Inr a \<and> fromCanvas cB = Inr c \<and> fromCanvas cM = Inr m \<and>
         gaussianPyramids R cA cB cM levels = Inr ([a], [c], [m])"
    by (rule blending_negative_levels(2) [OF nz lv])
next
  assume "cwidth cA = 0 \<or> cheight cA = 0 \<or> cwidth cB = 0 \<or> cheight cB = 0 \<or>
    cwidth cM = 0 \<or> cheight cM = 0"
  then show "processPyramidBlending R cA cB cM levels = Inl IndexSizeError"
    by (rule blending_zero_area)
qed

theorem blend_checks_nothing_witness:
  "1 \<le> cwidth ex_A \<and> 1 \<le> cheight ex_A \<and> 1 \<le> cwidth ex_wide \<and> 1 \<le> cheight ex_wide \<and>
   1 \<le> cwidth ex_M \<and> 1 \<le> cheight ex_M \<and> cwidth ex_wide \<noteq> cwidth ex_A \<and>
   (\<exists>out. processPyramidBlending nearest ex_A ex_wide ex_M 3 = Inr out \<and>
      cwidth (result out) = cwidth ex_A \<and> cheight (result out) = cheight ex_A) \<and>
   processPyramidBlending nearest ex_A ex_wide ex_M (- 2) = Inl TypeError \<and>
   cwidth (newCanvas 0 5) = 0 \<and>
   processPyramidBlending nearest (newCanvas 0 5) ex_wide ex_M (- 2) = Inl IndexSizeError"
proof -
  have nz: "1 \<le> cwidth ex_A" "1 \<le> cheight ex_A" "1 \<le> cwidth ex_wide" "1 \<le> cheight ex_wide"
    "1 \<le> cwidth ex_M" "1 \<le> cheight ex_M"
    and ne: "cwidth ex_wide \<noteq> cwidth ex_A"
    by (simp_all add: ex_A_def ex_wide_def ex_M_def)
  have z: "cwidth (newCanvas 0 5) = 0" by simp
  from blend_checks_nothing [of ex_A ex_wide ex_M 3 nearest] nz
  have a: "\<exists>out. processPyramidBlending nearest ex_A ex_wide ex_M 3 = Inr out \<and>
      cwidth (result out) = cwidth ex_A \<and> cheight (result out) = cheight ex_A"
    by simp
  from blend_checks_nothing [of ex_A ex_wide ex_M "- 2" nearest] nz
  have c: "processPyramidBlending nearest ex_A ex_wide ex_M (- 2) = Inl TypeError"
    by simp
  from blend_checks_nothing [of "newCanvas 0 5" ex_wide ex_M "- 2" nearest] z
  have d: "processPyramidBlending nearest (newCanvas 0 5) ex_wide ex_M (- 2) = Inl IndexSizeError"
    by blast
  from nz ne a c z d show ?thesis by (intro conjI)
qed

text \<open>
  C3 as stated fails: with an image A of 1 by 1 pixel and an image B of 4 by 1 pixels the
  call returns a result and no error; and with \<open>levels = -1\<close> the three level-0 rasters are
  built and the error is a \<open>TypeError\<close>.
\<close>

theorem blend_rejects_counterexample:
  "cwidth ex_wide \<noteq> cwidth ex_A \<and>
   processPyramidBlending nearest ex_A ex_wide ex_M 0 =
     Inr \<lparr>result = ex_A, laplacians = [ex_A_visual_canvas],
          gaussiansA = [ex_A], gaussiansB = [ex_wide]\<rparr> \<and>
   processPyramidBlending nearest ex_A ex_B ex_M (- 1) = Inl TypeError \<and>
   gaussianPyramids nearest ex_A ex_B ex_M (- 1) = Inr ([ex_A_image], [ex_B_image], [ex_M_image])"
proof (intro conjI)
  show "cwidth ex_wide \<noteq> cwidth ex_A" by (simp add: ex_wide_def ex_A_def)
  show "processPyramidBlending nearest ex_A ex_wide ex_M 0 =
     Inr \<lparr>result = ex_A, laplacians = [ex_A_visual_canvas],
          gaussiansA = [ex_A], gaussiansB = [ex_wide]\<rparr>"
    by (rule ex_mismatch_blending)
  have nz: "0 < cwidth ex_A" "0 < cheight ex_A" "0 < cwidth ex_B" "0 < cheight ex_B"
    "0 < cwidth ex_M" "0 < cheight ex_M"
    by (simp_all add: ex_A_def ex_B_def ex_M_def)
  show "processPyramidBlending nearest ex_A ex_B ex_M (- 1) = Inl TypeError"
    by (rule blending_negative_levels(1) [OF nz]) simp
  show "gaussianPyramids nearest ex_A ex_B ex_M (- 1) = Inr ([ex_A_image], [ex_B_image], [ex_M_image])"
    by (simp add: gaussianPyramids_def ex_A_fromCanvas ex_B_fromCanvas ex_M_fromCanvas)
qed

section \<open>The Laplacian pyramids\<close>

text \<open>
  C6. For images A and B of the same size, of at least one pixel, and \<open>levels\<close> at least
  0, phase 2 returns two pyramids of \<open>levels + 1\<close> entries. For every \<open>i < levels\<close>, entry \<open>i\<close>
  has the size of Gaussian level \<open>i\<close>, and each of its samples, in every channel and at
  every pixel, is the sample of Gaussian level \<open>i\<close> minus the sample of
  \<open>upsampleFloat(G[i+1], G[i].width, G[i].height)\<close>, a subtraction of numbers with no
  clamping. Entry \<open>levels\<close> is Gaussian level \<open>levels\<close> itself.
\<close>

theorem laplacian_is_difference:
  assumes "1 \<le> cwidth cA" "1 \<le> cheight cA"
    and "cwidth cB = cwidth cA" "cheight cB = cheight cA"
    and "1 \<le> cwidth cM" "1 \<le> cheight cM"
    and "0 \<le> levels"
  shows "\<exists>GA GB GM LA LB.
           gaussianPyramids R cA cB cM levels = Inr (GA, GB, GM) \<and>
           laplacianPyramids R GA GB levels = Inr (LA, LB) \<and>
           length LA = nat levels + 1 \<and> length LB = nat levels + 1 \<and>
           LA ! nat levels = Some (GA ! nat levels) \<and> LB ! nat levels = Some (GB ! nat levels) \<and>
           (\<forall>i < nat levels. \<exists>upA upB la lb.
              upsampleFloat R (GA ! Suc i) (width (GA ! i)) (height (GA ! i)) = Inr upA \<and>
              upsampleFloat R (GB ! Suc i) (width (GB ! i)) (height (GB ! i)) = Inr upB \<and>
              LA ! i = Some la \<and> LB ! i = Some lb \<and>
              width la = width (GA ! i) \<and> height la = height (GA ! i) \<and>
              width lb = width (GB ! i) \<and> height lb = height (GB ! i) \<and>
              (\<forall>p < width (GA ! i) * height (GA ! i).
                 r la ! p = r (GA ! i) ! p - r upA ! p \<and>
                 g la ! p = g (GA ! i) ! p - g upA ! p \<and>
                 b la ! p = b (GA ! i) ! p - b upA ! p \<and>
                 r lb ! p = r (GB ! i) ! p - r upB ! p \<and>
                 g lb ! p = g (GB ! i) ! p - g upB ! p \<and>
                 b lb ! p = b (GB ! i) ! p - b upB ! p))"
proof -
  have nz: "0 < cwidth cA" "0 < cheight cA" "0 < cwidth cB" "0 < cheight cB"
    "0 < cwidth cM" "0 < cheight cM"
    using assms by simp_all
  from gaussianPyramids_ok [OF nz] obtain GA GB GM where
    gp: "gaussianPyramids R cA cB cM levels = Inr (GA, GB, GM)" by blast
  note G = gaussianPyramids_well_formed [OF gp]
  have wfAB: "\<forall>x \<in> set GA \<union> set GB. well_formed x" using G(4,5) by blast
  from laplacianPyramids_ok [OF assms(7) G(1,2) wfAB, of R] obtain LA LB where
    lp: "laplacianPyramids R GA GB levels = Inr (LA, LB)"
    and lenL: "length LA = nat levels + 1" "length LB = nat levels + 1"
    and top: "LA ! nat levels = Some (GA ! nat levels)" "LB ! nat levels = Some (GB ! nat levels)"
    and lower: "\<And>i. i < nat levels \<Longrightarrow> \<exists>upA upB.
              upsampleFloat R (GA ! Suc i) (width (GA ! i)) (height (GA ! i)) = Inr upA \<and>
              upsampleFloat R (GB ! Suc i) (width (GB ! i)) (height (GB ! i)) = Inr upB \<and>
              LA ! i = Some (subtractFrom (width (GA ! i) * height (GA ! i)) (GA ! i) upA) \<and>
              LB ! i = Some (subtractFrom (width (GA ! i) * height (GA ! i)) (GB ! i) upB)"
    by blast
  have level: "\<exists>upA upB la lb.
              upsampleFloat R (GA ! Suc i) (width (GA ! i)) (height (GA ! i)) = Inr upA \<and>
              upsampleFloat R (GB ! Suc i) (width (GB ! i)) (height (GB ! i)) = Inr upB \<and>
              LA ! i = Some la \<and> LB ! i = Some lb \<and>
              width la = width (GA ! i) \<and> height la = height (GA ! i) \<and>
              width lb = width (GB ! i) \<and> height lb = height (GB ! i) \<and>
              (\<forall>p < width (GA ! i) * height (GA ! i).
                 r la ! p = r (GA ! i) ! p - r upA ! p \<and>
                 g la ! p = g (GA ! i) ! p - g upA ! p \<and>
                 b la ! p = b (GA ! i) ! p - b upA ! p \<and>
                 r lb ! p = r (GB ! i) ! p - r upB ! p \<and>
                 g lb ! p = g (GB ! i) ! p - g upB ! p \<and>
                 b lb ! p = b (GB ! i) ! p - b upB ! p)"
    if i: "i < nat levels" for i
  proof -
    let ?n = "width (GA ! i) * height (GA ! i)"
    from lower [OF i] obtain upA upB where
      uA: "upsampleFloat R (GA ! Suc i) (width (GA ! i)) (height (GA ! i)) = Inr upA"
      and uB: "upsampleFloat R (GB ! Suc i) (width (GB ! i)) (height (GB ! i)) = Inr upB"
      and la: "LA ! i = Some (subtractFrom ?n (GA ! i) upA)"
      and lb: "LB ! i = Some (subtractFrom ?n (GB ! i) upB)"
      by blast
    have wfA: "well_formed (GA ! i)" and wfB: "well_formed (GB ! i)"
      using G(1,2,4,5) i by (simp_all add: nth_mem)
    have same: "width (GB ! i) = width (GA ! i)" "height (GB ! i) = height (GA ! i)"
      using gaussianPyramids_same_dims(1) [OF gp _ assms(3,4), of i] i by simp_all
    note sA = upsampleFloat_shape [OF uA] and sB = upsampleFloat_shape [OF uB]
    note wA = upsampleFloat_well_formed [OF uA] and wB = upsampleFloat_well_formed [OF uB]
    have "r (subtractFrom ?n (GA ! i) upA) ! p = r (GA ! i) ! p - r upA ! p \<and>
          g (subtractFrom ?n (GA ! i) upA) ! p = g (GA ! i) ! p - g upA ! p \<and>
          b (subtractFrom ?n (GA ! i) upA) ! p = b (GA ! i) ! p - b upA ! p \<and>
          r (subtractFrom ?n (GB ! i) upB) ! p = r (GB ! i) ! p - r upB ! p \<and>
          g (subtractFrom ?n (GB ! i) upB) ! p = g (GB ! i) ! p - g upB ! p \<and>
          b (subtractFrom ?n (GB ! i) upB) ! p = b (GB ! i) ! p - b upB ! p"
      if p: "p < ?n" for p
      using subtractFrom_nth [OF wfA wA _ _ refl p] subtractFrom_nth [of "GB ! i" upB ?n p]
        wfB wB sA sB same p
      by simp
    with uA uB la lb show ?thesis
      by (intro exI [of _ upA] exI [of _ upB] exI [of _ "subtractFrom ?n (GA ! i) upA"]
          exI [of _ "subtractFrom ?n (GB ! i) upB"]) simp
  qed
  from gp lp lenL top level show ?thesis by blast
qed

theorem laplacian_is_difference_witness:
  "1 \<le> cwidth ex_P \<and> 1 \<le> cheight ex_P \<and>
   cwidth ex_Q = cwidth ex_P \<and> cheight ex_Q = cheight ex_P \<and>
   1 \<le> cwidth ex_W \<and> 1 \<le> cheight ex_W \<and> (0::int) \<le> 2 \<and>
   (\<exists>GA GB GM LA LB.
      gaussianPyramids nearest ex_P ex_Q ex_W 2 = Inr (GA, GB, GM) \<and>
      laplacianPyramids nearest GA GB 2 = Inr (LA, LB) \<and>
      length LA = nat 2 + 1 \<and> length LB = nat 2 + 1 \<and>
      LA ! nat 2 = Some (GA ! nat 2) \<and> LB ! nat 2 = Some (GB ! nat 2) \<and>
      (\<forall>i < nat 2. \<exists>upA upB la lb.
         upsampleFloat nearest (GA ! Suc i) (width (GA ! i)) (height (GA ! i)) = Inr upA \<and>
         upsampleFloat nearest (GB ! Suc i) (width (GB ! i)) (height (GB ! i)) = Inr upB \<and>
         LA ! i = Some la \<and> LB ! i = Some lb \<and>
         width la = width (GA ! i) \<and> height la = height (GA ! i) \<and>
         width lb = width (GB ! i) \<and> height lb = height (GB ! i) \<and>
         (\<forall>p < width (GA ! i) * height (GA ! i).
            r la ! p = r (GA ! i) ! p - r upA ! p \<and>
            g la ! p = g (GA ! i) ! p - g upA ! p \<and>
            b la ! p = b (GA ! i) ! p - b upA ! p \<and>
            r lb ! p = r (GB ! i) ! p - r upB ! p \<and>
            g lb ! p = g (GB ! i) ! p - g upB ! p \<and>
            b lb ! p = b (GB ! i) ! p - b upB ! p)))"
proof -
  have h: "1 \<le> cwidth ex_P" "1 \<le> cheight ex_P"
    "cwidth ex_Q = cwidth ex_P" "cheight ex_Q = cheight ex_P"
    "1 \<le> cwidth ex_W" "1 \<le> cheight ex_W" "(0::int) \<le> 2"
    by (simp_all add: ex_P_def ex_Q_def ex_W_def)
  from laplacian_is_difference [OF h, of nearest] h show ?thesis
    by (intro conjI)
qed

section \<open>The blend of the Laplacian levels\<close>

text \<open>
  C4, as the code has it. For three canvases of the same size, of at least one pixel, and
  \<open>levels\<close> at least 0, phase 3 returns a blended pyramid of \<open>levels + 1\<close> entries, as long
  as the Laplacian pyramids and the mask pyramid. At every level \<open>i\<close> from 0 to \<open>levels\<close>,
  every pixel \<open>p\<close> and every channel \<open>c\<close> of red, green, blue, the blended sample is
  \<open>LA[i].c[p] * alpha + LB[i].c[p] * (1 - alpha)\<close> with \<open>alpha = GM[i].r[p] / 255\<close>: the
  weight of all three channels is the red sample of the mask level. The arithmetic is
  that of the model, exact, where the code rounds to doubles and, on the store, to
  32-bit floats.
\<close>

theorem blend_weight_is_red_channel:
  assumes "1 \<le> cwidth cA" "1 \<le> cheight cA"
    and "cwidth cB = cwidth cA" "cheight cB = cheight cA"
    and "cwidth cM = cwidth cA" "cheight cM = cheight cA"
    and "0 \<le> levels"
  shows "\<exists>GA GB GM LA LB L_Out.
           gaussianPyramids R cA cB cM levels = Inr (GA, GB, GM) \<and>
           laplacianPyramids R GA GB levels = Inr (LA, LB) \<and>
           blendLaplacians LA LB GM levels = Inr L_Out \<and>
           length LA = nat levels + 1 \<and> length LB = nat levels + 1 \<and>
           length GM = nat levels + 1 \<and> length L_Out = nat levels + 1 \<and>
           (\<forall>i \<le> nat levels. \<exists>la lb.
              LA ! i = Some la \<and> LB ! i = Some lb \<and>
              width (L_Out ! i) = width la \<and> height (L_Out ! i) = height la \<and>
              (\<forall>p < width la * height la.
                 r (L_Out ! i) ! p =
                   r la ! p * div255 (r (GM ! i) ! p) + r lb ! p * (Val 1 - div255 (r (GM ! i) ! p)) \<and>
                 g (L_Out ! i) ! p =
                   g la ! p * div255 (r (GM ! i) ! p) + g lb ! p * (Val 1 - div255 (r (GM ! i) ! p)) \<and>
                 b (L_Out ! i) ! p =
                   b la ! p * div255 (r (GM ! i) ! p) + b lb ! p * (Val 1 - div255 (r (GM ! i) ! p))))"
proof -
  have nz: "0 < cwidth cA" "0 < cheight cA" "0 < cwidth cB" "0 < cheight cB"
    "0 < cwidth cM" "0 < cheight cM"
    using assms by simp_all
  from gaussianPyramids_ok [OF nz] obtain GA GB GM where
    gp: "gaussianPyramids R cA cB cM levels = Inr (GA, GB, GM)" by blast
  note G = gaussianPyramids_well_formed [OF gp]
  have wfAB: "\<forall>x \<in> set GA \<union> set GB. well_formed x" using G(4,5) by blast
  from laplacianPyramids_ok [OF assms(7) G(1,2) wfAB, of R] obtain LA LB where
    lp: "laplacianPyramids R GA GB levels = Inr (LA, LB)"
    and lenL: "length LA = nat levels + 1" "length LB = nat levels + 1"
    and top: "LA ! nat levels = Some (GA ! nat levels)" "LB ! nat levels = Some (GB ! nat levels)"
    and lower: "\<And>i. i < nat levels \<Longrightarrow> \<exists>upA upB.
              LA ! i = Some (subtractFrom (width (GA ! i) * height (GA ! i)) (GA ! i) upA) \<and>
              LB ! i = Some (subtractFrom (width (GA ! i) * height (GA ! i)) (GB ! i) upB)"
    by blast
  have wf: "well_formed (GA ! i)" "well_formed (GB ! i)" "well_formed (GM ! i)"
    if "i \<le> nat levels" for i
    using G(1-6) that by (simp_all add: nth_mem)
  have same: "width (GB ! i) = width (GA ! i)" "height (GB ! i) = height (GA ! i)"
    "width (GM ! i) = width (GA ! i)" "height (GM ! i) = height (GA ! i)"
    if i: "i \<le> nat levels" for i
    using gaussianPyramids_same_dims(1) [OF gp i assms(3,4)]
      gaussianPyramids_same_dims(2) [OF gp i assms(5,6)] by simp_all
  have each: "\<exists>la lb. LA ! i = Some la \<and> LB ! i = Some lb \<and>
      width la = width (GA ! i) \<and> height la = height (GA ! i) \<and>
      length (r la) = width la * height la \<and> length (g la) = width la * height la \<and>
      length (b la) = width la * height la \<and>
      length (r lb) = width la * height la \<and> length (g lb) = width la * height la \<and>
      length (b lb) = width la * height la"
    if i: "i \<le> nat levels" for i
  proof (cases "i = nat levels")
    case True
    with top wf [OF i] same [OF i] show ?thesis by (simp add: well_formed_def)
  next
    case False
    with i have "i < nat levels" by simp
    from lower [OF this] same [OF i] show ?thesis by auto
  qed
  have each': "\<exists>la lb. LA ! i = Some la \<and> LB ! i = Some lb \<and> 0 < width la \<and> 0 < height la"
    if i: "i \<le> nat levels" for i
    using each [OF i] wf(1) [OF i] by (auto simp: well_formed_def)
  from blendLaplacians_ok [OF assms(7) lenL G(3) each'] obtain L_Out where
    bl: "blendLaplacians LA LB GM levels = Inr L_Out"
    and lenO: "length L_Out = nat levels + 1"
    and outs: "\<And>i. i \<le> nat levels \<Longrightarrow>
      \<exists>la lb. LA ! i = Some la \<and> LB ! i = Some lb \<and> L_Out ! i = blendPixels la lb (GM ! i)"
    by blast
  have level: "\<exists>la lb.
      LA ! i = Some la \<and> LB ! i = Some lb \<and>
      width (L_Out ! i) = width la \<and> height (L_Out ! i) = height la \<and>
      (\<forall>p < width la * height la.
         r (L_Out ! i) ! p =
           r la ! p * div255 (r (GM ! i) ! p) + r lb ! p * (Val 1 - div255 (r (GM ! i) ! p)) \<and>
         g (L_Out ! i) ! p =
           g la ! p * div255 (r (GM ! i) ! p) + g lb ! p * (Val 1 - div255 (r (GM ! i) ! p)) \<and>
         b (L_Out ! i) ! p =
           b la ! p * div255 (r (GM ! i) ! p) + b lb ! p * (Val 1 - div255 (r (GM ! i) ! p)))"
    if i: "i \<le> nat levels" for i
  proof -
    from each [OF i] obtain la lb where
      l: "LA ! i = Some la" "LB ! i = Some lb"
      and d: "width la = width (GA ! i)" "height la = height (GA ! i)"
      and lens: "length (r la) = width la * height la" "length (g la) = width la * height la"
      "length (b la) = width la * height la"
      "length (r lb) = width la * height la" "length (g lb) = width la * height la"
      "length (b lb) = width la * height la"
      by blast
    from outs [OF i] l have o: "L_Out ! i = blendPixels la lb (GM ! i)" by simp
    have m: "length (r (GM ! i)) = width la * height la"
      using wf(3) [OF i] same(3,4) [OF i] d by (simp add: well_formed_def)
    from blendPixels_nth [OF lens m] l o show ?thesis by simp
  qed
  from gp lp bl lenL G(3) lenO level show ?thesis by blast
qed

theorem blend_weight_is_red_channel_witness:
  "1 \<le> cwidth ex_P \<and> 1 \<le> cheight ex_P \<and>
   cwidth ex_Q = cwidth ex_P \<and> cheight ex_Q = cheight ex_P \<and>
   cwidth ex_W = cwidth ex_P \<and> cheight ex_W = cheight ex_P \<and> (0::int) \<le> 2 \<and>
   (\<exists>GA GB GM LA LB L_Out.
      gaussianPyramids nearest ex_P ex_Q ex_W 2 = Inr (GA, GB, GM) \<and>
      laplacianPyramids nearest GA GB 2 = Inr (LA, LB) \<and>
      blendLaplacians LA LB GM 2 = Inr L_Out \<and>
      length LA = nat 2 + 1 \<and> length LB = nat 2 + 1 \<and>
      length GM = nat 2 + 1 \<and> length L_Out = nat 2 + 1 \<and>
      (\<forall>i \<le> nat 2. \<exists>la lb.
         LA ! i = Some la \<and> LB ! i = Some lb \<and>
         width (L_Out ! i) = width la \<and> height (L_Out ! i) = height la \<and>
         (\<forall>p < width la * height la.
            r (L_Out ! i) ! p =
              r la ! p * div255 (r (GM ! i) ! p) + r lb ! p * (Val 1 - div255 (r (GM ! i) ! p)) \<and>
            g (L_Out ! i) ! p =
              g la ! p * div255 (r (GM ! i) ! p) + g lb ! p * (Val 1 - div255 (r (GM ! i) ! p)) \<and>
            b (L_Out ! i) ! p =
              b la ! p * div255 (r (GM ! i) ! p) + b lb ! p * (Val 1 - div255 (r (GM ! i) ! p)))))"
proof -
  have h: "1 \<le> cwidth ex_P" "1 \<le> cheight ex_P"
    "cwidth ex_Q = cwidth ex_P" "cheight ex_Q = cheight ex_P"
    "cwidth ex_W = cwidth ex_P" "cheight ex_W = cheight ex_P" "(0::int) \<le> 2"
    by (simp_all add: ex_P_def ex_Q_def ex_W_def)
  from blend_weight_is_red_channel [OF h, of nearest] h show ?thesis
    by (intro conjI)
qed

text \<open>
  C4 as stated fails: for the one-pixel images A = (10, 20, 30), B = (40, 50, 60) and the
  mask (255, 0, 0), at \<open>levels = 0\<close>, the blended green sample is 20, the sample of A,
  since the weight is the red sample of the mask, 255 / 255. Weighted by the green
  sample of the mask, as the claim has it, it would be 50, the sample of B.
\<close>

theorem blend_weight_counterexample:
  "gaussianPyramids nearest ex_A ex_B ex_M 0 = Inr ([ex_A_image], [ex_B_image], [ex_M_image]) \<and>
   laplacianPyramids nearest [ex_A_image] [ex_B_image] 0 = Inr ([Some ex_A_image], [Some ex_B_image]) \<and>
   blendLaplacians [Some ex_A_image] [Some ex_B_image] [ex_M_image] 0 = Inr [ex_A_image] \<and>
   g ([ex_A_image] ! 0) ! 0 = Val 20 \<and>
   g ex_A_image ! 0 * div255 (g ex_M_image ! 0) +
     g ex_B_image ! 0 * (Val 1 - div255 (g ex_M_image ! 0)) = Val 50 \<and>
   g ex_A_image ! 0 * div255 (r ex_M_image ! 0) +
     g ex_B_image ! 0 * (Val 1 - div255 (r ex_M_image ! 0)) = Val 20"
proof (intro conjI)
  show "gaussianPyramids nearest ex_A ex_B ex_M 0 = Inr ([ex_A_image], [ex_B_image], [ex_M_image])"
    by (rule ex_pyramids0)
  show "laplacianPyramids nearest [ex_A_image] [ex_B_image] 0 = Inr ([Some ex_A_image], [Some ex_B_image])"
    by (rule ex_laplacians0)
  show "blendLaplacians [Some ex_A_image] [Some ex_B_image] [ex_M_image] 0 = Inr [ex_A_image]"
    by (rule ex_blended0)
qed (simp_all add: ex_A_image_def ex_B_image_def ex_M_image_def)

section \<open>The mask and its red channel\<close>




end
